theory Spec2Isabelle
  imports Main "HOL-Library.Word"
begin

unbundle bit_operations_syntax

section \<open>Data model\<close>

subsection \<open>Players and moves (include/core/board.h)\<close>

text \<open>\<^verbatim>\<open>enum class Player { Black = 0, White = 1 };\<close>\<close>

datatype Player = Black | White

text \<open>
  \<^verbatim>\<open>struct Move { int x = 0; int y = 0; ... };\<close>
  The coordinates are C++ \<^verbatim>\<open>int\<close>s. The code below only compares them and adds
  offsets of at most four to coordinates below twelve, so no arithmetic can leave the
  32-bit range and unbounded integers model them exactly.
\<close>

datatype Move = Move (move_x: int) (move_y: int)

text \<open>\<^verbatim>\<open>bool operator==(const Move& other) const { return x == other.x && y == other.y; }\<close>\<close>

definition Move_eq :: "Move \<Rightarrow> Move \<Rightarrow> bool" where
  "Move_eq a other = (move_x a = move_x other \<and> move_y a = move_y other)"

text \<open>
  \<^verbatim>\<open>bool operator<(const Move& other) const {
       return (x < other.x) || (x == other.x && y < other.y); }\<close>
\<close>

definition Move_less :: "Move \<Rightarrow> Move \<Rightarrow> bool" where
  "Move_less a other =
     (move_x a < move_x other \<or> (move_x a = move_x other \<and> move_y a < move_y other))"

subsection \<open>Threat primitives (include/tactics/threat_solver_types.h)\<close>

datatype Direction = Horizontal | Vertical | DiagNWSE | DiagNESW

text \<open>
  The enumerator \<^verbatim>\<open>ThreatType::None\<close> is written \<open>ThreatNone\<close>, since \<open>None\<close> is the
  constructor of HOL's option type.
\<close>

datatype ThreatType =
    ThreatNone
  | Five | OpenFour
  | SimpleFour | OpenThree | BrokenThree
  | SimpleThree | TwoFourWays | TwoThreeWays | TwoTwoWays | TwoOneWay
  | OneFiveWays | OneFourWays | OneThreeWays | OneTwoWays | OneOneWay

section \<open>Raw threat queries (src/tactics/threat_solver_state.cpp)\<close>

text \<open>
  \<^verbatim>\<open>ThreatType ThreatSolver::Impl::getThreatAt(Player, const Move&, Direction) const {
       // Simplified solver only understands immediate wins; expose none for now.
       return ThreatType::None; }\<close>
\<close>

definition getThreatAt :: "Player \<Rightarrow> Move \<Rightarrow> Direction \<Rightarrow> ThreatType" where
  "getThreatAt attacker move direction = ThreatNone"

text \<open>
  \<^verbatim>\<open>getThreatsAt\<close> clears the caller's vector and pushes the result of \<^verbatim>\<open>getThreatAt\<close>
  for the four directions, in the order of the enumeration. The model takes the vector's
  old contents and returns the new ones.
\<close>

definition getThreatsAt :: "Player \<Rightarrow> Move \<Rightarrow> ThreatType list \<Rightarrow> ThreatType list" where
  "getThreatsAt attacker move out =
     (let out1 = [];
          out2 = out1 @ [getThreatAt attacker move Horizontal];
          out3 = out2 @ [getThreatAt attacker move Vertical];
          out4 = out3 @ [getThreatAt attacker move DiagNWSE];
          out5 = out4 @ [getThreatAt attacker move DiagNESW]
      in out5)"

text \<open>
  A \<^verbatim>\<open>ThreatInstance\<close>. The C++ members \<^verbatim>\<open>type\<close>, \<^verbatim>\<open>attacker\<close> and \<^verbatim>\<open>direction\<close>
  are the fields \<open>threatType\<close>, \<open>threatAttacker\<close> and \<open>threatDirection\<close>: a field
  of a record is a constant, and the functions below have parameters of these names.
\<close>

record ThreatInstance =
  threatType :: ThreatType
  threatAttacker :: Player
  threatDirection :: Direction
  stones :: "Move list"
  requiredEmpty :: "Move list"
  defensePoints :: "Move list"
  finishingMoves :: "Move list"

text \<open>The value-initialised \<^verbatim>\<open>ThreatInstance threat{}\<close>: the default member initialisers.\<close>

definition defaultThreatInstance :: ThreatInstance where
  "defaultThreatInstance =
     \<lparr>threatType = ThreatNone, threatAttacker = Black, threatDirection = Horizontal, stones = [],
      requiredEmpty = [], defensePoints = [], finishingMoves = []\<rparr>"

text \<open>
  A \<^verbatim>\<open>ThreatSequence\<close>; its member \<^verbatim>\<open>attacker\<close> is the field \<open>seqAttacker\<close>.
\<close>

record ThreatSequence =
  seqAttacker :: Player
  threats :: "ThreatInstance list"
  attackerMoves :: "Move list"
  defenderMoves :: "Move list"

definition defaultThreatSequence :: ThreatSequence where
  "defaultThreatSequence =
     \<lparr>seqAttacker = Black, threats = [], attackerMoves = [], defenderMoves = []\<rparr>"

record DefensiveSet =
  isLost :: bool
  defensiveMoves :: "Move list"

definition defaultDefensiveSet :: DefensiveSet where
  "defaultDefensiveSet = \<lparr>isLost = False, defensiveMoves = []\<rparr>"

text \<open>
  \<^verbatim>\<open>struct ThreatSearchLimits { int maxNodes = 200000; int maxDepth = 20;
                               const bool* abortFlag = nullptr; };\<close>
  The abort flag is a pointer to a \<^verbatim>\<open>bool\<close> that the caller owns and may change
  between two reads of the solver. A null pointer is \<open>None\<close>; a non-null pointer is
  \<open>Some f\<close>, where \<open>f k\<close> is the value the solver sees at its read number \<open>k\<close> of
  one call (counted from zero). A flag that keeps its value \<open>v\<close> for the whole call is
  \<open>Some (\<lambda>k. v)\<close>.
\<close>

record ThreatSearchLimits =
  maxNodes :: int
  maxDepth :: int
  abortFlag :: "(nat \<Rightarrow> bool) option"

definition defaultLimits :: ThreatSearchLimits where
  "defaultLimits = \<lparr>maxNodes = 200000, maxDepth = 20, abortFlag = None\<rparr>"

text \<open>The test \<^verbatim>\<open>limits.abortFlag && *limits.abortFlag\<close> at read number \<open>k\<close>.\<close>

definition abortRequested :: "ThreatSearchLimits \<Rightarrow> nat \<Rightarrow> bool" where
  "abortRequested limits k = (case abortFlag limits of None \<Rightarrow> False | Some f \<Rightarrow> f k)"

subsection \<open>The board (include/core/board.h)\<close>

definition kBoardSize :: int where
  "kBoardSize = 12"

text \<open>
  The static tables \<^verbatim>\<open>zobristTable_[kBoardSize][kBoardSize][2]\<close> and \<^verbatim>\<open>zobristSide_\<close>
  are declared in the header; the function \<^verbatim>\<open>initZobrist\<close> that fills them is not among
  the sources, so their contents are a parameter of the model.
\<close>

record Zobrist =
  zobristTable :: "int \<Rightarrow> int \<Rightarrow> Player \<Rightarrow> 64 word"
  zobristSide :: "64 word"

text \<open>
  Modelled from the spec: the state of \<^verbatim>\<open>class Board\<close>. The header declares the members
  \<^verbatim>\<open>bb_[2][3]\<close> (one bitboard per player), \<^verbatim>\<open>side_to_move_\<close> and \<^verbatim>\<open>hashKey_\<close>, but
  board.cpp, which reads and writes the bitboards, is missing. The spec describes the
  position as "a 12x12 grid of cell states {empty, black, white}; side-to-move; a 64-bit
  position hash" in which "no cell holds more than one color": \<open>cells b (x, y)\<close> is
  \<open>None\<close> for an empty cell and \<open>Some p\<close> for a stone of player \<open>p\<close>.
\<close>

record Board =
  cells :: "int \<times> int \<Rightarrow> Player option"
  side_to_move :: Player
  hashKey :: "64 word"

text \<open>\<^verbatim>\<open>Player otherPlayer(Player p) { return (p == Player::Black) ? Player::White : Player::Black; }\<close>\<close>

definition otherPlayer :: "Player \<Rightarrow> Player" where
  "otherPlayer p = (if p = Black then White else Black)"

definition inBounds :: "int \<Rightarrow> int \<Rightarrow> bool" where
  "inBounds x y = (0 \<le> x \<and> x < kBoardSize \<and> 0 \<le> y \<and> y < kBoardSize)"

text \<open>
  Modelled from the spec: \<^verbatim>\<open>Board::isOccupied\<close> (board.cpp is missing). The header says
  "Returns true if the cell is occupied by either color; bounds must be valid."
\<close>

definition isOccupied :: "Board \<Rightarrow> int \<Rightarrow> int \<Rightarrow> bool" where
  "isOccupied b x y = (cells b (x, y) \<noteq> None)"

text \<open>
  Modelled from the spec: \<^verbatim>\<open>Board::getCellState\<close> (board.cpp is missing). The header says
  "0 = empty, 1 = black, 2 = white; bounds must be valid."
\<close>

definition getCellState :: "Board \<Rightarrow> int \<Rightarrow> int \<Rightarrow> int" where
  "getCellState b x y =
     (case cells b (x, y) of None \<Rightarrow> 0 | Some Black \<Rightarrow> 1 | Some White \<Rightarrow> 2)"

text \<open>
  Modelled from the spec: \<^verbatim>\<open>Board::makeMove\<close> (board.cpp is missing). The spec says
  "\<^verbatim>\<open>makeMove(x,y)\<close> fails (returns false, no state change) when the cell is out of range
  or occupied; otherwise places the side-to-move's stone, flips side-to-move, and updates
  the hash by XORing in the placed-stone constant and the side constant". The result is
  the returned flag and the board after the call.
\<close>

definition makeMove :: "Zobrist \<Rightarrow> Board \<Rightarrow> int \<Rightarrow> int \<Rightarrow> bool \<times> Board" where
  "makeMove z b x y =
     (if \<not> inBounds x y \<or> isOccupied b x y then (False, b)
      else (True,
            \<lparr>cells = (cells b)((x, y) \<mapsto> side_to_move b),
             side_to_move = otherPlayer (side_to_move b),
             hashKey = hashKey b XOR zobristTable z x y (side_to_move b) XOR zobristSide z\<rparr>))"

text \<open>
  Modelled from the spec: \<^verbatim>\<open>Board::unmakeMove\<close> (board.cpp is missing). The spec says
  "\<^verbatim>\<open>unmakeMove(x,y)\<close> is the exact inverse and is only well-defined when \<open>(x,y)\<close> was
  the most recent successful \<^verbatim>\<open>makeMove\<close>"; the header says "Removes the stone placed by
  makeMove at (x,y), toggles the side back, restores hash." The stone removed is the one
  of the player who is not to move. Neither text says when the returned flag is false,
  and the solver discards it, so the model gives the board after the call only.
\<close>

definition unmakeMove :: "Zobrist \<Rightarrow> Board \<Rightarrow> int \<Rightarrow> int \<Rightarrow> Board" where
  "unmakeMove z b x y =
     \<lparr>cells = (cells b)((x, y) := None),
      side_to_move = otherPlayer (side_to_move b),
      hashKey = hashKey b XOR zobristTable z x y (otherPlayer (side_to_move b)) XOR zobristSide z\<rparr>"

text \<open>The cells of the board in row-major order: by \<open>y\<close>, then by \<open>x\<close>.\<close>

definition allCells :: "(int \<times> int) list" where
  "allCells = concat (map (\<lambda>y. map (\<lambda>x. (x, y)) [0..kBoardSize - 1]) [0..kBoardSize - 1])"

text \<open>
  Modelled from the spec: \<^verbatim>\<open>Board::getLegalMoves\<close> (board.cpp is missing). The spec says
  "\<^verbatim>\<open>getLegalMoves()\<close> returns every empty cell in a fixed deterministic order (row-major)".
\<close>

definition getLegalMoves :: "Board \<Rightarrow> Move list" where
  "getLegalMoves b =
     map (\<lambda>(x, y). Move x y) (filter (\<lambda>(x, y). \<not> isOccupied b x y) allCells)"

text \<open>
  The next three definitions are the parts of \<^verbatim>\<open>checkWin\<close> below. The four line
  directions as steps \<open>(dx, dy)\<close>: horizontal, vertical and the two diagonals.
\<close>

definition lineDirections :: "(int \<times> int) list" where
  "lineDirections = [(1, 0), (0, 1), (1, 1), (1, - 1)]"

text \<open>The cell \<open>(x, y)\<close> is on the board and holds a stone of the player.\<close>

definition hasStone :: "Board \<Rightarrow> Player \<Rightarrow> int \<Rightarrow> int \<Rightarrow> bool" where
  "hasStone b player x y = (inBounds x y \<and> cells b (x, y) = Some player)"

text \<open>Five cells in a row from \<open>(x, y)\<close> in direction \<open>(dx, dy)\<close>, all stones of the player.\<close>

definition fiveFrom :: "Board \<Rightarrow> Player \<Rightarrow> int \<Rightarrow> int \<Rightarrow> int \<Rightarrow> int \<Rightarrow> bool" where
  "fiveFrom b player x y dx dy =
     list_all (\<lambda>k. hasStone b player (x + k * dx) (y + k * dy)) [0, 1, 2, 3, 4]"

text \<open>
  Modelled from the spec: \<^verbatim>\<open>Board::checkWin\<close> (board.cpp is missing). The spec says
  "\<^verbatim>\<open>checkWin(player)\<close> scans all four line directions from every stone of \<open>player\<close>
  for five-in-a-row contiguity; it is a pure query with no side effects".
\<close>

definition checkWin :: "Board \<Rightarrow> Player \<Rightarrow> bool" where
  "checkWin b player =
     list_ex (\<lambda>(x, y). hasStone b player x y \<and>
                list_ex (\<lambda>(dx, dy). fiveFrom b player x y dx dy) lineDirections)
       allCells"

section \<open>The threat solver (src/tactics/threat_solver_analysis.cpp)\<close>

text \<open>
  \<^verbatim>\<open>bool isImmediateWinningMove(Board& board, const Move& move, Player attacker) {
       if (board.isOccupied(move.x, move.y)) return false;
       if (!board.makeMove(move.x, move.y)) return false;
       bool win = board.checkWin(attacker);
       board.unmakeMove(move.x, move.y);
       return win; }\<close>
  The board is passed by reference and changed in place, so the model returns it with
  the result.
\<close>

definition isImmediateWinningMove :: "Zobrist \<Rightarrow> Board \<Rightarrow> Move \<Rightarrow> Player \<Rightarrow> bool \<times> Board" where
  "isImmediateWinningMove z board move attacker =
     (if isOccupied board (move_x move) (move_y move) then (False, board)
      else case makeMove z board (move_x move) (move_y move) of
             (False, board1) \<Rightarrow> (False, board1)
           | (True, board1) \<Rightarrow>
               (let win = checkWin board1 attacker;
                    board2 = unmakeMove z board1 (move_x move) (move_y move)
                in (win, board2)))"

text \<open>
  The comparator of \<^verbatim>\<open>collectLegalMoves\<close>:
  \<^verbatim>\<open>[](const Move& a, const Move& b) { return (a.y == b.y) ? (a.x < b.x) : (a.y < b.y); }\<close>
\<close>

definition rowMajorLess :: "Move \<Rightarrow> Move \<Rightarrow> bool" where
  "rowMajorLess a b = (if move_y a = move_y b then move_x a < move_x b else move_y a < move_y b)"

text \<open>
  \<^verbatim>\<open>std::sort\<close> with a comparator, as insertion sort. The comparator above is a strict
  total order on moves, so on a list without repetitions every sorting algorithm returns
  the same list.
\<close>

fun insertSorted :: "('a \<Rightarrow> 'a \<Rightarrow> bool) \<Rightarrow> 'a \<Rightarrow> 'a list \<Rightarrow> 'a list" where
  "insertSorted cmp a [] = [a]"
| "insertSorted cmp a (b # bs) =
     (if cmp b a then b # insertSorted cmp a bs else a # b # bs)"

definition sortWith :: "('a \<Rightarrow> 'a \<Rightarrow> bool) \<Rightarrow> 'a list \<Rightarrow> 'a list" where
  "sortWith cmp xs = foldr (insertSorted cmp) xs []"

text \<open>
  \<^verbatim>\<open>std::vector<Move> collectLegalMoves(const Board& board) {
       auto legal = board.getLegalMoves();
       std::sort(legal.begin(), legal.end(), <comparator>);
       return legal; }\<close>
\<close>

definition collectLegalMoves :: "Board \<Rightarrow> Move list" where
  "collectLegalMoves board = sortWith rowMajorLess (getLegalMoves board)"

text \<open>
  The \<^verbatim>\<open>ThreatInstance\<close> that the solver builds for a winning move:
  \<^verbatim>\<open>ThreatInstance threat{}; threat.type = ThreatType::Five; threat.attacker = attacker;
    threat.finishingMoves.push_back(move);\<close>
\<close>

definition fiveThreat :: "Player \<Rightarrow> Move \<Rightarrow> ThreatInstance" where
  "fiveThreat attacker move =
     defaultThreatInstance\<lparr>threatType := Five, threatAttacker := attacker,
                             finishingMoves := finishingMoves defaultThreatInstance @ [move]\<rparr>"

text \<open>
  The \<^verbatim>\<open>ThreatSequence\<close> that \<^verbatim>\<open>findWinningThreatSequence\<close> builds for a winning move:
  \<^verbatim>\<open>ThreatSequence seq{}; seq.attacker = attacker; seq.threats.push_back(threat);
    seq.attackerMoves.push_back(move);\<close>
\<close>

definition winningSequence :: "Player \<Rightarrow> Move \<Rightarrow> ThreatSequence" where
  "winningSequence attacker move =
     defaultThreatSequence
       \<lparr>seqAttacker := attacker,
        threats := threats defaultThreatSequence @ [fiveThreat attacker move],
        attackerMoves := attackerMoves defaultThreatSequence @ [move]\<rparr>"

text \<open>
  The loop of \<^verbatim>\<open>findWinningThreatSequence\<close> (lines 66 to 87) over the moves that are
  left, with the local counter \<^verbatim>\<open>nodes\<close>. The counter is also the number of reads of
  the abort flag made so far. \<open>None\<close> is \<^verbatim>\<open>return false\<close>; \<open>Some seq\<close> is
  \<^verbatim>\<open>return true\<close> after \<^verbatim>\<open>outSequence = std::move(seq)\<close>. The counter cannot
  overflow: the board has 144 cells.
\<close>

fun findLoop ::
  "Zobrist \<Rightarrow> Player \<Rightarrow> ThreatSearchLimits \<Rightarrow> Board \<Rightarrow> int \<Rightarrow> Move list \<Rightarrow> ThreatSequence option"
where
  "findLoop z attacker limits boardCopy nodes [] = None"
| "findLoop z attacker limits boardCopy nodes (move # rest) =
     (if abortRequested limits (nat nodes) then None
      else if nodes + 1 > maxNodes limits then None
      else case isImmediateWinningMove z boardCopy move attacker of
             (True, board1) \<Rightarrow> Some (winningSequence attacker move)
           | (False, board1) \<Rightarrow> findLoop z attacker limits board1 (nodes + 1) rest)"

text \<open>
  \<^verbatim>\<open>bool findWinningThreatSequence(Player attacker, ThreatSequence& outSequence,
                                   const ThreatSearchLimits& limits) const\<close>
  The member \<^verbatim>\<open>rootBoard\<close> is a pointer: \<open>None\<close> when null, otherwise the board it
  points to. The result is the returned flag and the contents of \<^verbatim>\<open>outSequence\<close>
  after the call; \<^verbatim>\<open>ThreatSequence{attacker}\<close> sets the first member and leaves the
  vectors empty.
\<close>

definition findWinningThreatSequence ::
  "Zobrist \<Rightarrow> Board option \<Rightarrow> Player \<Rightarrow> ThreatSequence \<Rightarrow> ThreatSearchLimits \<Rightarrow> bool \<times> ThreatSequence"
where
  "findWinningThreatSequence z rootBoard attacker outSequence limits =
     (case rootBoard of
        None \<Rightarrow> (False, outSequence)
      | Some root \<Rightarrow>
          (let boardCopy = root in
           if checkWin boardCopy attacker
           then (True, defaultThreatSequence\<lparr>seqAttacker := attacker\<rparr>)
           else case findLoop z attacker limits boardCopy 0 (collectLegalMoves boardCopy) of
                  None \<Rightarrow> (False, outSequence)
                | Some seq \<Rightarrow> (True, seq)))"

text \<open>
  The loop of \<^verbatim>\<open>computeDefensiveSet\<close> (lines 102 to 112). The flag of the result says
  whether the function returned from inside the loop (\<^verbatim>\<open>return result\<close> at line 104
  or 107).
\<close>

fun defensiveLoop ::
  "Zobrist \<Rightarrow> Player \<Rightarrow> ThreatSearchLimits \<Rightarrow> Board \<Rightarrow> int \<Rightarrow> Move list \<Rightarrow> DefensiveSet
     \<Rightarrow> bool \<times> DefensiveSet"
where
  "defensiveLoop z attacker limits boardCopy nodes [] result = (False, result)"
| "defensiveLoop z attacker limits boardCopy nodes (move # rest) result =
     (if abortRequested limits (nat nodes) then (True, result)
      else if nodes + 1 > maxNodes limits then (True, result)
      else case isImmediateWinningMove z boardCopy move attacker of
             (win, board1) \<Rightarrow>
               defensiveLoop z attacker limits board1 (nodes + 1) rest
                 (if win then result\<lparr>defensiveMoves := defensiveMoves result @ [move]\<rparr>
                  else result))"

text \<open>
  \<^verbatim>\<open>DefensiveSet computeDefensiveSet(Player defender, const ThreatSearchLimits& limits) const\<close>
\<close>

definition computeDefensiveSet ::
  "Zobrist \<Rightarrow> Board option \<Rightarrow> Player \<Rightarrow> ThreatSearchLimits \<Rightarrow> DefensiveSet"
where
  "computeDefensiveSet z rootBoard defender limits =
     (let result = defaultDefensiveSet in
      case rootBoard of
        None \<Rightarrow> result
      | Some root \<Rightarrow>
          (let attacker = otherPlayer defender;
               boardCopy = root;
               legal = collectLegalMoves boardCopy
           in case defensiveLoop z attacker limits boardCopy 0 legal result of
                (True, result1) \<Rightarrow> result1
              | (False, result1) \<Rightarrow>
                  if defensiveMoves result1 = [] then result1\<lparr>isLost := False\<rparr>
                  else if length (defensiveMoves result1) > 1
                  then result1\<lparr>isLost := True, defensiveMoves := []\<rparr>
                  else result1\<lparr>isLost := False\<rparr>))"

text \<open>The loop of \<^verbatim>\<open>hasImmediateWinningThreat\<close> (lines 138 to 142).\<close>

fun immediateLoop :: "Zobrist \<Rightarrow> Player \<Rightarrow> Board \<Rightarrow> Move list \<Rightarrow> bool" where
  "immediateLoop z player boardCopy [] = False"
| "immediateLoop z player boardCopy (move # rest) =
     (case isImmediateWinningMove z boardCopy move player of
        (True, board1) \<Rightarrow> True
      | (False, board1) \<Rightarrow> immediateLoop z player board1 rest)"

text \<open>\<^verbatim>\<open>bool hasImmediateWinningThreat(Player player) const\<close>\<close>

definition hasImmediateWinningThreat :: "Zobrist \<Rightarrow> Board option \<Rightarrow> Player \<Rightarrow> bool" where
  "hasImmediateWinningThreat z rootBoard player =
     (case rootBoard of
        None \<Rightarrow> False
      | Some root \<Rightarrow>
          (let boardCopy = root in
           if checkWin boardCopy player then True
           else immediateLoop z player boardCopy (collectLegalMoves boardCopy)))"

text \<open>The loop of \<^verbatim>\<open>collectCurrentForcingThreats\<close> (lines 153 to 161).\<close>

fun forcingLoop ::
  "Zobrist \<Rightarrow> Player \<Rightarrow> Board \<Rightarrow> Move list \<Rightarrow> ThreatInstance list \<Rightarrow> ThreatInstance list"
where
  "forcingLoop z player boardCopy [] out = out"
| "forcingLoop z player boardCopy (move # rest) out =
     (case isImmediateWinningMove z boardCopy move player of
        (win, board1) \<Rightarrow>
          forcingLoop z player board1 rest
            (if win then out @ [fiveThreat player move] else out))"

text \<open>
  \<^verbatim>\<open>void collectCurrentForcingThreats(Player player, std::vector<ThreatInstance>& out) const\<close>
  The model takes the old contents of \<^verbatim>\<open>out\<close> and returns the new ones.
\<close>

definition collectCurrentForcingThreats ::
  "Zobrist \<Rightarrow> Board option \<Rightarrow> Player \<Rightarrow> ThreatInstance list \<Rightarrow> ThreatInstance list"
where
  "collectCurrentForcingThreats z rootBoard player out =
     (let out1 = [] in
      case rootBoard of
        None \<Rightarrow> out1
      | Some root \<Rightarrow>
          (let boardCopy = root in
           forcingLoop z player boardCopy (collectLegalMoves boardCopy) out1))"


section \<open>Scores in the transposition table (include_new/search/transposition_table.h)\<close>

text \<open>
  \<^verbatim>\<open>using EvalScore = int;\<close> with
  \<^verbatim>\<open>kInfinity = std::numeric_limits<EvalScore>::max() / 4\<close> and
  \<^verbatim>\<open>kMateScore = kInfinity - 1000\<close> (include/search/search_types.h).
\<close>

definition kInfinity :: int where
  "kInfinity = (2 ^ 31 - 1) div 4"

definition kMateScore :: int where
  "kMateScore = kInfinity - 1000"

text \<open>
  Modelled from the spec: \<^verbatim>\<open>TranspositionTable::toTTScore\<close>, declared in the header as
  \<^verbatim>\<open>static EvalScore toTTScore(EvalScore score, int plyFromRoot)\<close>; its body
  (transposition_table.cpp) is missing. The spec says "\<^verbatim>\<open>toTTScore\<close> converts a
  root-relative mate score to a 'distance from this node' form before storing
  (\<^verbatim>\<open>score - plyFromRoot\<close> for winning mates, \<^verbatim>\<open>score + plyFromRoot\<close> for losing mates,
  ordinary scores pass through unchanged)". Neither the spec nor the headers give the
  magnitude from which a score counts as a mate score, so it is the parameter
  \<open>mateBound\<close>: a score of at least \<open>mateBound\<close> is a winning mate, a score of at most
  \<open>- mateBound\<close> a losing mate. Scores are bounded by \<open>kInfinity\<close>, a quarter of the
  32-bit range, and plies by the search depth, so the sums cannot overflow and
  unbounded integers model \<^verbatim>\<open>EvalScore\<close> exactly.
\<close>

definition toTTScore :: "int \<Rightarrow> int \<Rightarrow> int \<Rightarrow> int" where
  "toTTScore mateBound score plyFromRoot =
     (if mateBound \<le> score then score - plyFromRoot
      else if score \<le> - mateBound then score + plyFromRoot
      else score)"

text \<open>
  Modelled from the spec: \<^verbatim>\<open>TranspositionTable::fromTTScore\<close> (transposition_table.cpp is
  missing). The spec says "\<^verbatim>\<open>fromTTScore\<close> reverses this on read".
\<close>

definition fromTTScore :: "int \<Rightarrow> int \<Rightarrow> int \<Rightarrow> int" where
  "fromTTScore mateBound score plyFromRoot =
     (if mateBound \<le> score then score + plyFromRoot
      else if score \<le> - mateBound then score - plyFromRoot
      else score)"

text \<open>
  A valid mate score \<open>s\<close> at ply distance \<open>d\<close>: a winning or losing mate score whose
  stored form, \<open>d\<close> closer to zero, is still a mate score.
\<close>

definition validMateScore :: "int \<Rightarrow> int \<Rightarrow> int \<Rightarrow> bool" where
  "validMateScore mateBound s d = (0 \<le> d \<and> (mateBound + d \<le> s \<or> s \<le> - mateBound - d))"

section \<open>Notions used in the statements\<close>

text \<open>A legal move: an empty cell of the board.\<close>

definition legalAt :: "Board \<Rightarrow> Move \<Rightarrow> bool" where
  "legalAt b m = (inBounds (move_x m) (move_y m) \<and> \<not> isOccupied b (move_x m) (move_y m))"

text \<open>The board after \<^verbatim>\<open>makeMove(m.x, m.y)\<close>.\<close>

definition playMove :: "Zobrist \<Rightarrow> Board \<Rightarrow> Move \<Rightarrow> Board" where
  "playMove z b m = snd (makeMove z b (move_x m) (move_y m))"

text \<open>The move is legal and, once played, leaves player \<open>a\<close> with five in a row.\<close>

definition winsBy :: "Zobrist \<Rightarrow> Board \<Rightarrow> Player \<Rightarrow> Move \<Rightarrow> bool" where
  "winsBy z b a m = (legalAt b m \<and> checkWin (playMove z b m) a)"

text \<open>
  The legal moves, in the order of the solver's scan, after which player \<open>a\<close> has five
  in a row.
\<close>

definition winningMoves :: "Zobrist \<Rightarrow> Board \<Rightarrow> Player \<Rightarrow> Move list" where
  "winningMoves z b a = filter (\<lambda>m. checkWin (playMove z b m) a) (collectLegalMoves b)"

text \<open>
  The scan is cut at its branch point number \<open>k\<close> (counted from zero): the abort flag
  reads true there, or the incremented counter \<open>k + 1\<close> exceeds \<^verbatim>\<open>limits.maxNodes\<close>.
\<close>

definition cutAt :: "ThreatSearchLimits \<Rightarrow> nat \<Rightarrow> bool" where
  "cutAt limits k = (abortRequested limits k \<or> maxNodes limits < int k + 1)"

text \<open>The limits cut none of the first \<open>n\<close> branch points.\<close>

definition neverCut :: "ThreatSearchLimits \<Rightarrow> nat \<Rightarrow> bool" where
  "neverCut limits n = (\<forall>k<n. \<not> cutAt limits k)"

text \<open>
  The position with one more stone: a stone of player \<open>p\<close> on the cell of move \<open>m\<close>,
  the side to move as it was, and the hash XORed with the constant of the new stone. The
  \<^verbatim>\<open>Board\<close> interface has no call for it when \<open>p\<close> is not the side to move:
  \<^verbatim>\<open>makeMove\<close> only places stones of the side to move.
\<close>

definition withStone :: "Zobrist \<Rightarrow> Board \<Rightarrow> Player \<Rightarrow> Move \<Rightarrow> Board" where
  "withStone z b p m =
     b\<lparr>cells := (cells b)((move_x m, move_y m) \<mapsto> p),
       hashKey := hashKey b XOR zobristTable z (move_x m) (move_y m) p\<rparr>"

subsection \<open>Concrete positions\<close>

text \<open>
  Modelled from the spec: the constructor \<^verbatim>\<open>Board::Board()\<close> (board.cpp is missing). The
  spec says the position is "created empty", and that its hash is the "XOR of a
  per-(cell,color) random constant for every occupied cell, XORed with a side-to-move
  constant when it is white's turn": zero for the empty board with Black to move.
\<close>

definition emptyBoard :: Board where
  "emptyBoard = \<lparr>cells = (\<lambda>c. None), side_to_move = Black, hashKey = 0\<rparr>"

text \<open>The position after a sequence of calls of \<^verbatim>\<open>makeMove\<close>.\<close>

definition playMoves :: "Zobrist \<Rightarrow> Board \<Rightarrow> Move list \<Rightarrow> Board" where
  "playMoves z b ms = fold (\<lambda>m b1. playMove z b1 m) ms b"

text \<open>Some contents for the Zobrist tables.\<close>

definition sampleZobrist :: Zobrist where
  "sampleZobrist =
     \<lparr>zobristTable = (\<lambda>x y p. word_of_int (2 * (12 * y + x) + (if p = Black then 1 else 2))),
      zobristSide = 1024\<rparr>"

text \<open>
  Black has played (0,1), (1,1), (2,1), (3,1), White (0,11), (2,11), (4,11), (6,11); it
  is Black's turn, and (4,1) completes five in a row.
\<close>

definition fourBoard :: "Zobrist \<Rightarrow> Board" where
  "fourBoard z =
     playMoves z emptyBoard
       [Move 0 1, Move 0 11, Move 1 1, Move 2 11, Move 2 1, Move 4 11, Move 3 1, Move 6 11]"

text \<open>The same game one move later: Black has five in a row, and it is White's turn.\<close>

definition fiveBoard :: "Zobrist \<Rightarrow> Board" where
  "fiveBoard z = playMove z (fourBoard z) (Move 4 1)"

text \<open>
  The colours exchanged: Black has played (0,11), (2,11), (4,11), (6,11), White (0,1),
  (1,1), (2,1), (3,1), and it is Black's turn. A White stone on (4,1) completes five in
  a row, and on no other cell.
\<close>

definition whiteFour :: "Zobrist \<Rightarrow> Board" where
  "whiteFour z =
     playMoves z emptyBoard
       [Move 0 11, Move 0 1, Move 2 11, Move 1 1, Move 4 11, Move 2 1, Move 6 11, Move 3 1]"

text \<open>
  An open four of White: Black has played (0,11), (2,11), (4,11), (6,11), White (1,1),
  (2,1), (3,1), (4,1), and it is Black's turn. A White stone on (0,1) completes five in
  a row, and so does one on (5,1).
\<close>

definition whiteOpenFour :: "Zobrist \<Rightarrow> Board" where
  "whiteOpenFour z =
     playMoves z emptyBoard
       [Move 0 11, Move 1 1, Move 2 11, Move 2 1, Move 4 11, Move 3 1, Move 6 11, Move 4 1]"





text \<open>An abort flag that is set for the whole call.\<close>

definition flagSet :: "nat \<Rightarrow> bool" where
  "flagSet k = True"


section \<open>The order on moves\<close>

lemma Move_less_irrefl: "\<not> Move_less a a"
  by (simp add: Move_less_def)

lemma Move_less_trans: "Move_less a b \<Longrightarrow> Move_less b c \<Longrightarrow> Move_less a c"
  by (auto simp: Move_less_def)

lemma Move_less_total: "a \<noteq> b \<Longrightarrow> Move_less a b \<or> Move_less b a"
  by (cases a; cases b) (auto simp: Move_less_def)

section \<open>Playing a move and taking it back\<close>

text \<open>
  \<^verbatim>\<open>isImmediateWinningMove\<close> changes the board it is given and restores it: on a legal
  move \<^verbatim>\<open>unmakeMove\<close> undoes \<^verbatim>\<open>makeMove\<close> exactly, cells, side to move and hash, and
  on any other move the board is not touched. So every iteration of the solver's loops
  sees the same board.
\<close>

lemma otherPlayer_involutive: "otherPlayer (otherPlayer p) = p"
  by (cases p) (simp_all add: otherPlayer_def)

lemma makeMove_legal:
  assumes "inBounds x y" and "\<not> isOccupied b x y"
  shows "fst (makeMove z b x y)"
  using assms by (simp add: makeMove_def)

lemma makeMove_illegal:
  assumes "\<not> inBounds x y \<or> isOccupied b x y"
  shows "makeMove z b x y = (False, b)"
  using assms by (auto simp add: makeMove_def)

lemma unmakeMove_makeMove:
  assumes "inBounds x y" and "\<not> isOccupied b x y"
  shows "unmakeMove z (snd (makeMove z b x y)) x y = b"
proof -
  have c: "cells b (x, y) = None"
    using assms(2) by (simp add: isOccupied_def)
  have "(cells b)((x, y) := None) = cells b"
    using c by (metis fun_upd_triv)
  then show ?thesis
    using assms by (simp add: makeMove_def unmakeMove_def otherPlayer_involutive xor.assoc)
qed

lemma isImmediateWinningMove_eq:
  "isImmediateWinningMove z b m a = (winsBy z b a m, b)"
proof (cases "legalAt b m")
  case True
  then have l: "inBounds (move_x m) (move_y m)" "\<not> isOccupied b (move_x m) (move_y m)"
    by (simp_all add: legalAt_def)
  obtain b1 where mk: "makeMove z b (move_x m) (move_y m) = (True, b1)"
    using makeMove_legal [OF l, of z] by (cases "makeMove z b (move_x m) (move_y m)") auto
  have "unmakeMove z b1 (move_x m) (move_y m) = b"
    using unmakeMove_makeMove [OF l, of z] mk by simp
  then show ?thesis
    using True l mk by (simp add: isImmediateWinningMove_def winsBy_def playMove_def Let_def)
next
  case False
  then show ?thesis
    by (auto simp: isImmediateWinningMove_def winsBy_def legalAt_def makeMove_def)
qed

section \<open>The legal moves\<close>

text \<open>
  Sorting keeps the moves that \<^verbatim>\<open>getLegalMoves\<close> returns: \<^verbatim>\<open>collectLegalMoves\<close> lists
  the empty cells of the board, each once, and never more than 144 of them.
\<close>

lemma set_insertSorted: "set (insertSorted cmp a xs) = insert a (set xs)"
  by (induction xs) auto

lemma set_sortWith: "set (sortWith cmp xs) = set xs"
  by (induction xs) (auto simp: sortWith_def set_insertSorted)

lemma set_allCells: "set allCells = {(x, y). inBounds x y}"
proof -
  have "\<And>x y. (x, y) \<in> set allCells \<longleftrightarrow> inBounds x y"
    by (auto simp: allCells_def inBounds_def kBoardSize_def image_iff)
  then show ?thesis by auto
qed

lemma set_getLegalMoves: "set (getLegalMoves b) = {m. legalAt b m}"
proof -
  have "\<And>m. m \<in> set (getLegalMoves b) \<longleftrightarrow> legalAt b m"
  proof -
    fix m
    obtain x y where m: "m = Move x y" by (cases m)
    show "m \<in> set (getLegalMoves b) \<longleftrightarrow> legalAt b m"
      by (auto simp: getLegalMoves_def set_allCells legalAt_def m)
  qed
  then show ?thesis by auto
qed

lemma set_collectLegalMoves: "set (collectLegalMoves b) = {m. legalAt b m}"
  by (simp add: collectLegalMoves_def set_sortWith set_getLegalMoves)


lemma length_insertSorted: "length (insertSorted cmp a xs) = Suc (length xs)"
  by (induction xs) auto

lemma length_sortWith: "length (sortWith cmp xs) = length xs"
  by (induction xs) (auto simp: sortWith_def length_insertSorted)

lemma distinct_insertSorted: "distinct (insertSorted cmp a xs) = (a \<notin> set xs \<and> distinct xs)"
  by (induction xs) (auto simp: set_insertSorted)

lemma distinct_sortWith: "distinct (sortWith cmp xs) = distinct xs"
  by (induction xs) (auto simp: sortWith_def distinct_insertSorted set_sortWith [unfolded sortWith_def])

lemma length_allCells: "length allCells = 144"
  by code_simp

lemma length_collectLegalMoves: "length (collectLegalMoves b) \<le> 144"
proof -
  have "length (getLegalMoves b) \<le> length allCells"
    by (simp add: getLegalMoves_def)
  then show ?thesis
    by (simp add: collectLegalMoves_def length_sortWith length_allCells)
qed

section \<open>The loops of the solver\<close>

text \<open>
  Each loop is characterised by the moves that win at once. The loops of
  \<^verbatim>\<open>findWinningThreatSequence\<close> and \<^verbatim>\<open>computeDefensiveSet\<close> also stop at the first
  branch point where the limits cut the scan.
\<close>

lemma immediateLoop_eq: "immediateLoop z p b ms = (\<exists>m\<in>set ms. winsBy z b p m)"
  by (induction ms) (auto simp: isImmediateWinningMove_eq split: bool.splits)

lemma forcingLoop_eq:
  "forcingLoop z p b ms out = out @ map (fiveThreat p) (filter (winsBy z b p) ms)"
  by (induction ms arbitrary: out) (auto simp: isImmediateWinningMove_eq)

lemma findLoop_Some:
  "findLoop z a l b n ms = Some s \<Longrightarrow> \<exists>m\<in>set ms. winsBy z b a m \<and> s = winningSequence a m"
  by (induction ms arbitrary: n)
     (auto simp: isImmediateWinningMove_eq split: if_splits bool.splits)

lemma findLoop_cut:
  assumes "\<forall>m\<in>set (take k ms). \<not> winsBy z b a m" and "cutAt l (j + k)"
  shows "findLoop z a l b (int j) ms = None"
  using assms
proof (induction ms arbitrary: j k)
  case Nil
  then show ?case by simp
next
  case (Cons m ms)
  show ?case
  proof (cases k)
    case 0
    then show ?thesis using Cons.prems by (auto simp: cutAt_def)
  next
    case (Suc k')
    then have nw: "\<not> winsBy z b a m" and rest: "\<forall>m\<in>set (take k' ms). \<not> winsBy z b a m"
      and cut: "cutAt l (Suc j + k')"
      using Cons.prems by auto
    have "findLoop z a l b (int (Suc j)) ms = None"
      using Cons.IH [OF rest cut] .
    then show ?thesis
      using nw by (simp add: isImmediateWinningMove_eq add.commute)
  qed
qed

lemma findLoop_full:
  assumes "\<forall>k<length ms. \<not> cutAt l (j + k)"
  shows "findLoop z a l b (int j) ms =
           (case filter (winsBy z b a) ms of [] \<Rightarrow> None | m # _ \<Rightarrow> Some (winningSequence a m))"
  using assms
proof (induction ms arbitrary: j)
  case Nil
  then show ?case by simp
next
  case (Cons m ms)
  have here: "\<not> cutAt l j"
    using Cons.prems by (metis add.right_neutral length_greater_0_conv list.distinct(1))
  have "\<forall>k<length ms. \<not> cutAt l (Suc j + k)"
    using Cons.prems by (metis Suc_less_eq add_Suc_shift length_Cons)
  then have "findLoop z a l b (int (Suc j)) ms =
           (case filter (winsBy z b a) ms of [] \<Rightarrow> None | m # _ \<Rightarrow> Some (winningSequence a m))"
    by (rule Cons.IH)
  then show ?case
    using here by (simp add: isImmediateWinningMove_eq cutAt_def add.commute)
qed

lemma defensiveLoop_full:
  assumes "\<forall>k<length ms. \<not> cutAt l (j + k)"
  shows "defensiveLoop z a l b (int j) ms r =
           (False, r\<lparr>defensiveMoves := defensiveMoves r @ filter (winsBy z b a) ms\<rparr>)"
  using assms
proof (induction ms arbitrary: j r)
  case Nil
  then show ?case by simp
next
  case (Cons m ms)
  have here: "\<not> cutAt l j"
    using Cons.prems by (metis add.right_neutral length_greater_0_conv list.distinct(1))
  have "\<forall>k<length ms. \<not> cutAt l (Suc j + k)"
    using Cons.prems by (metis Suc_less_eq add_Suc_shift length_Cons)
  then have ih: "\<And>r. defensiveLoop z a l b (int (Suc j)) ms r =
           (False, r\<lparr>defensiveMoves := defensiveMoves r @ filter (winsBy z b a) ms\<rparr>)"
    by (rule Cons.IH)
  show ?case
    using here by (simp add: isImmediateWinningMove_eq cutAt_def add.commute ih [unfolded of_nat_Suc])
qed

lemma defensiveLoop_of_findLoop_None:
  "findLoop z a l b n ms = None \<Longrightarrow> snd (defensiveLoop z a l b n ms r) = r"
  by (induction ms arbitrary: n)
     (auto simp: isImmediateWinningMove_eq split: if_splits bool.splits)

lemma filter_winsBy_collectLegalMoves:
  "filter (winsBy z b a) (collectLegalMoves b) = winningMoves z b a"
  unfolding winningMoves_def
  by (rule filter_cong) (auto simp: set_collectLegalMoves winsBy_def)


lemma neverCut_all: "neverCut limits n \<Longrightarrow> \<forall>k<n. \<not> cutAt limits (0 + k)"
  by (simp add: neverCut_def)

lemma neverCut_defaultLimits: "n \<le> 144 \<Longrightarrow> neverCut defaultLimits n"
  by (auto simp: neverCut_def cutAt_def abortRequested_def defaultLimits_def)

lemma findWinningThreatSequence_full:
  assumes "neverCut limits (length (collectLegalMoves b))"
  shows "findWinningThreatSequence z (Some b) a out limits =
           (if checkWin b a then (True, defaultThreatSequence\<lparr>seqAttacker := a\<rparr>)
            else case winningMoves z b a of
                   [] \<Rightarrow> (False, out)
                 | m # _ \<Rightarrow> (True, winningSequence a m))"
proof -
  have "findLoop z a limits b (int 0) (collectLegalMoves b) =
          (case winningMoves z b a of [] \<Rightarrow> None | m # _ \<Rightarrow> Some (winningSequence a m))"
    using findLoop_full [OF neverCut_all [OF assms], of z a b]
    by (simp add: filter_winsBy_collectLegalMoves)
  then show ?thesis
    by (simp add: findWinningThreatSequence_def split: list.splits)
qed

lemma defensiveLoop_neverCut:
  assumes "neverCut limits (length (collectLegalMoves b))"
  shows "defensiveLoop z a limits b 0 (collectLegalMoves b) defaultDefensiveSet =
           (False, \<lparr>isLost = False, defensiveMoves = winningMoves z b a\<rparr>)"
  using defensiveLoop_full [OF neverCut_all [OF assms], of z a b defaultDefensiveSet]
  by (simp add: filter_winsBy_collectLegalMoves defaultDefensiveSet_def)

lemma computeDefensiveSet_full:
  assumes "neverCut limits (length (collectLegalMoves b))"
  shows "computeDefensiveSet z (Some b) defender limits =
           (case winningMoves z b (otherPlayer defender) of
              [] \<Rightarrow> \<lparr>isLost = False, defensiveMoves = []\<rparr>
            | [m] \<Rightarrow> \<lparr>isLost = False, defensiveMoves = [m]\<rparr>
            | _ \<Rightarrow> \<lparr>isLost = True, defensiveMoves = []\<rparr>)"
  by (simp add: computeDefensiveSet_def Let_def defensiveLoop_neverCut [OF assms]
      split: list.splits)

lemma computeDefensiveSet_no_win_found:
  assumes "\<not> fst (findWinningThreatSequence z (Some b) (otherPlayer defender) out limits)"
  shows "computeDefensiveSet z (Some b) defender limits = \<lparr>isLost = False, defensiveMoves = []\<rparr>"
proof -
  let ?a = "otherPlayer defender"
  have none: "findLoop z ?a limits b 0 (collectLegalMoves b) = None"
    using assms by (auto simp: findWinningThreatSequence_def split: if_splits option.splits)
  have r: "snd (defensiveLoop z ?a limits b 0 (collectLegalMoves b) defaultDefensiveSet) =
             defaultDefensiveSet"
    using none by (rule defensiveLoop_of_findLoop_None)
  obtain flag where "defensiveLoop z ?a limits b 0 (collectLegalMoves b) defaultDefensiveSet =
      (flag, defaultDefensiveSet)"
    using r by (cases "defensiveLoop z ?a limits b 0 (collectLegalMoves b) defaultDefensiveSet") auto
  then show ?thesis
    by (cases flag) (simp_all add: computeDefensiveSet_def Let_def defaultDefensiveSet_def)
qed

lemma neverCut_collectLegalMoves_default: "neverCut defaultLimits (length (collectLegalMoves b))"
  by (rule neverCut_defaultLimits) (rule length_collectLegalMoves)

lemma distinct_allCells: "distinct allCells"
  unfolding allCells_def kBoardSize_def
  by (rule distinct_concat) (auto simp: distinct_map inj_on_def)

lemma distinct_collectLegalMoves: "distinct (collectLegalMoves b)"
proof -
  have "inj_on (\<lambda>(x, y). Move x y) A" for A
    by (auto simp: inj_on_def)
  then have "distinct (getLegalMoves b)"
    unfolding getLegalMoves_def
    by (simp add: distinct_map distinct_filter distinct_allCells)
  then show ?thesis
    by (simp add: collectLegalMoves_def distinct_sortWith)
qed

lemma filter_single:
  assumes "distinct xs" and "a \<in> set xs" and "\<And>x. x \<in> set xs \<Longrightarrow> P x \<longleftrightarrow> x = a"
  shows "filter P xs = [a]"
  using assms
proof (induction xs)
  case Nil
  then show ?case by simp
next
  case (Cons x xs)
  show ?case
  proof (cases "x = a")
    case True
    then have "a \<notin> set xs" using Cons.prems(1) by simp
    then have "\<forall>y\<in>set xs. \<not> P y" using Cons.prems(3) by auto
    then have "filter P xs = []" by (simp add: filter_empty_conv)
    then show ?thesis using True Cons.prems(3) by simp
  next
    case False
    then have "filter P xs = [a]"
      using Cons.IH Cons.prems by auto
    then show ?thesis using False Cons.prems(3) by simp
  qed
qed

section \<open>Five in a row\<close>

text \<open>
  \<^verbatim>\<open>checkWin\<close> holds exactly when five cells in a row, in one of the four directions,
  hold stones of the player; a legal move adds one stone of the side to move.
\<close>

lemma checkWin_iff:
  "checkWin b p \<longleftrightarrow>
     (\<exists>x y dx dy. (dx, dy) \<in> set lineDirections \<and>
        (\<forall>k\<in>{0, 1, 2, 3, 4}. hasStone b p (x + k * dx) (y + k * dy)))"
proof
  assume "checkWin b p"
  then obtain x y dx dy where "(dx, dy) \<in> set lineDirections" "fiveFrom b p x y dx dy"
    by (auto simp: checkWin_def list_ex_iff)
  then show "\<exists>x y dx dy. (dx, dy) \<in> set lineDirections \<and>
        (\<forall>k\<in>{0, 1, 2, 3, 4}. hasStone b p (x + k * dx) (y + k * dy))"
    by (auto simp: fiveFrom_def intro!: exI)
next
  assume "\<exists>x y dx dy. (dx, dy) \<in> set lineDirections \<and>
        (\<forall>k\<in>{0, 1, 2, 3, 4}. hasStone b p (x + k * dx) (y + k * dy))"
  then obtain x y dx dy where d: "(dx, dy) \<in> set lineDirections"
    and f: "\<forall>k\<in>{0, 1, 2, 3, 4}. hasStone b p (x + k * dx) (y + k * dy)"
    by blast
  have h: "hasStone b p x y" using f by auto
  then have "(x, y) \<in> set allCells"
    by (simp add: set_allCells hasStone_def)
  moreover have "fiveFrom b p x y dx dy"
    using f by (simp add: fiveFrom_def)
  ultimately show "checkWin b p"
    using d h unfolding checkWin_def list_ex_iff by blast
qed

lemma cells_playMove:
  assumes "legalAt b m"
  shows "cells (playMove z b m) = (cells b)((move_x m, move_y m) \<mapsto> side_to_move b)"
  using assms by (simp add: playMove_def makeMove_def legalAt_def)

lemma hasStone_playMove:
  assumes "legalAt b m"
  shows "hasStone (playMove z b m) p s t \<longleftrightarrow>
           (s = move_x m \<and> t = move_y m \<and> p = side_to_move b) \<or> hasStone b p s t"
proof (cases "(s, t) = (move_x m, move_y m)")
  case True
  then have "cells b (s, t) = None" and "inBounds s t"
    using assms by (auto simp: legalAt_def isOccupied_def)
  then show ?thesis
    using True by (auto simp: hasStone_def cells_playMove [OF assms])
next
  case False
  then show ?thesis
    by (auto simp: hasStone_def cells_playMove [OF assms])
qed

lemma lineDirections_cases:
  assumes "(dx, dy) \<in> set lineDirections"
  shows "(dx = 1 \<and> dy = 0) \<or> (dx = 0 \<and> dy = 1) \<or> (dx = 1 \<and> dy = 1) \<or> (dx = 1 \<and> dy = - 1)"
  using assms by (auto simp: lineDirections_def)

section \<open>The two concrete positions\<close>

text \<open>
  In \<open>fourBoard\<close> Black has no five in a row, and (4,1) is the only move after which
  Black has one.
\<close>

lemma cells_fourBoard:
  "cells (fourBoard z) =
     [(0, 1) \<mapsto> Black, (0, 11) \<mapsto> White, (1, 1) \<mapsto> Black, (2, 11) \<mapsto> White,
      (2, 1) \<mapsto> Black, (4, 11) \<mapsto> White, (3, 1) \<mapsto> Black, (6, 11) \<mapsto> White]"
  by (simp add: fourBoard_def playMoves_def playMove_def makeMove_def emptyBoard_def
      inBounds_def kBoardSize_def isOccupied_def otherPlayer_def)

lemma side_fourBoard: "side_to_move (fourBoard z) = Black"
  by (simp add: fourBoard_def playMoves_def playMove_def makeMove_def emptyBoard_def
      inBounds_def kBoardSize_def isOccupied_def otherPlayer_def)

lemma hasStone_fourBoard:
  "hasStone (fourBoard z) Black s t \<longleftrightarrow> t = 1 \<and> 0 \<le> s \<and> s \<le> 3"
  by (auto simp: hasStone_def cells_fourBoard inBounds_def kBoardSize_def)

lemma not_checkWin_fourBoard: "\<not> checkWin (fourBoard z) Black"
proof
  assume "checkWin (fourBoard z) Black"
  then obtain x y dx dy where d: "(dx, dy) \<in> set lineDirections"
    and f: "\<forall>k\<in>{0, 1, 2, 3, 4}. y + k * dy = 1 \<and> 0 \<le> x + k * dx \<and> x + k * dx \<le> 3"
    unfolding checkWin_iff hasStone_fourBoard by blast
  have k0: "y = 1 \<and> 0 \<le> x \<and> x \<le> 3"
    using f by auto
  have k4: "y + 4 * dy = 1 \<and> 0 \<le> x + 4 * dx \<and> x + 4 * dx \<le> 3"
    using f by auto
  show False
    using k0 k4 lineDirections_cases [OF d] by arith
qed

lemma legalAt_fourBoard:
  "legalAt (fourBoard z) (Move s t) \<longleftrightarrow>
     inBounds s t \<and> (s, t) \<notin> {(0, 1), (1, 1), (2, 1), (3, 1), (0, 11), (2, 11), (4, 11), (6, 11)}"
  by (auto simp: legalAt_def isOccupied_def cells_fourBoard)

lemma hasStone_playMove_fourBoard:
  assumes "legalAt (fourBoard z) (Move u v)"
  shows "hasStone (playMove z (fourBoard z) (Move u v)) Black s t \<longleftrightarrow>
           (s = u \<and> t = v) \<or> (t = 1 \<and> 0 \<le> s \<and> s \<le> 3)"
  by (simp add: hasStone_playMove [OF assms] side_fourBoard hasStone_fourBoard)

lemma legalAt_fourBoard_free:
  assumes "legalAt (fourBoard z) (Move u v)"
  shows "0 \<le> u" and "\<not> (v = 1 \<and> 0 \<le> u \<and> u \<le> 3)"
  using assms by (auto simp: legalAt_fourBoard inBounds_def)

lemma winsBy_fourBoard_only:
  assumes l: "legalAt (fourBoard z) (Move u v)"
    and c: "checkWin (playMove z (fourBoard z) (Move u v)) Black"
  shows "u = 4 \<and> v = 1"
proof -
  obtain x y dx dy where d: "(dx, dy) \<in> set lineDirections"
    and f: "\<forall>k\<in>{0, 1, 2, 3, 4}. (x + k * dx = u \<and> y + k * dy = v) \<or>
                 (y + k * dy = 1 \<and> 0 \<le> x + k * dx \<and> x + k * dx \<le> 3)"
    using c unfolding checkWin_iff hasStone_playMove_fourBoard [OF l] by blast
  have k0: "(x = u \<and> y = v) \<or> (y = 1 \<and> 0 \<le> x \<and> x \<le> 3)"
    using f by auto
  have k1: "(x + dx = u \<and> y + dy = v) \<or> (y + dy = 1 \<and> 0 \<le> x + dx \<and> x + dx \<le> 3)"
    using f by auto
  have k2: "(x + 2 * dx = u \<and> y + 2 * dy = v) \<or>
            (y + 2 * dy = 1 \<and> 0 \<le> x + 2 * dx \<and> x + 2 * dx \<le> 3)"
    using f by auto
  have k3: "(x + 3 * dx = u \<and> y + 3 * dy = v) \<or>
            (y + 3 * dy = 1 \<and> 0 \<le> x + 3 * dx \<and> x + 3 * dx \<le> 3)"
    using f by auto
  have k4: "(x + 4 * dx = u \<and> y + 4 * dy = v) \<or>
            (y + 4 * dy = 1 \<and> 0 \<le> x + 4 * dx \<and> x + 4 * dx \<le> 3)"
    using f by auto
  have dd: "(dx = 1 \<and> dy = 0) \<or> (dx = 0 \<and> dy = 1) \<or> (dx = 1 \<and> dy = 1) \<or> (dx = 1 \<and> dy = - 1)"
    using d by (rule lineDirections_cases)
  have dy0: "dy = 0"
  proof (rule ccontr)
    assume "dy \<noteq> 0"
    then have "dy = 1 \<or> dy = - 1" using dd by arith
    then show False using k0 k1 k2 by arith
  qed
  have dx: "dx = 1"
    using dd dy0 by arith
  from l have u0: "0 \<le> u" and free: "\<not> (v = 1 \<and> 0 \<le> u \<and> u \<le> 3)"
    by (rule legalAt_fourBoard_free)+
  have x0: "0 \<le> x"
    using k0 u0 by arith
  have e4: "x + 4 = u \<and> y = v"
    using k4 x0 dx dy0 by simp
  have "x \<le> 0"
    using k3 e4 dx dy0 by simp
  then have "x = 0" using x0 by simp
  moreover have "y = 1"
    using k1 e4 dx dy0 by auto
  ultimately show ?thesis
    using e4 by simp
qed

lemma winsBy_fourBoard: "winsBy z (fourBoard z) Black m \<longleftrightarrow> m = Move 4 1"
proof
  assume w: "winsBy z (fourBoard z) Black m"
  obtain u v where m: "m = Move u v" by (cases m)
  have "u = 4 \<and> v = 1"
    using w m winsBy_fourBoard_only [of z u v] by (simp add: winsBy_def)
  then show "m = Move 4 1" using m by simp
next
  assume m: "m = Move 4 1"
  have l: "legalAt (fourBoard z) (Move 4 1)"
    by (simp add: legalAt_fourBoard inBounds_def kBoardSize_def)
  have "\<forall>k\<in>{0, 1, 2, 3, 4}. hasStone (playMove z (fourBoard z) (Move 4 1)) Black (0 + k * 1) (1 + k * 0)"
    by (simp add: hasStone_playMove_fourBoard [OF l])
  then have "checkWin (playMove z (fourBoard z) (Move 4 1)) Black"
    unfolding checkWin_iff lineDirections_def
    by (intro exI [of _ 0] exI [of _ 1] conjI) (auto simp del: One_nat_def)
  then show "winsBy z (fourBoard z) Black m"
    using l m by (simp add: winsBy_def)
qed

lemma winningMoves_fourBoard: "winningMoves z (fourBoard z) Black = [Move 4 1]"
proof -
  have "Move 4 1 \<in> set (collectLegalMoves (fourBoard z))"
    using winsBy_fourBoard [of z "Move 4 1"] by (simp add: set_collectLegalMoves winsBy_def)
  then have "filter (winsBy z (fourBoard z) Black) (collectLegalMoves (fourBoard z)) = [Move 4 1]"
    by (intro filter_single distinct_collectLegalMoves) (simp_all add: winsBy_fourBoard)
  then show ?thesis
    by (simp add: filter_winsBy_collectLegalMoves)
qed

lemma checkWin_fiveBoard: "checkWin (fiveBoard z) Black"
  using winsBy_fourBoard [of z "Move 4 1"] by (simp add: winsBy_def fiveBoard_def)

section \<open>A player who is not to move\<close>

text \<open>
  \<^verbatim>\<open>makeMove\<close> places a stone of the side to move, so no move tried by
  \<^verbatim>\<open>isImmediateWinningMove\<close> changes the stones of the other player: for that player
  the solver finds a win only if five in a row are already on the board.
\<close>

lemma checkWin_playMove_other:
  assumes "legalAt b m" and "p \<noteq> side_to_move b"
  shows "checkWin (playMove z b m) p = checkWin b p"
  using assms by (simp add: checkWin_iff hasStone_playMove)

lemma hasImmediateWinningThreat_not_to_move:
  assumes "attacker \<noteq> side_to_move b"
  shows "hasImmediateWinningThreat z (Some b) attacker = checkWin b attacker"
proof -
  have "immediateLoop z attacker b (collectLegalMoves b) \<longleftrightarrow>
          (\<exists>m. legalAt b m \<and> checkWin b attacker)"
    using assms
    by (auto simp: immediateLoop_eq set_collectLegalMoves winsBy_def checkWin_playMove_other)
  then show ?thesis
    by (auto simp: hasImmediateWinningThreat_def)
qed

lemma winningMoves_not_to_move:
  assumes "attacker \<noteq> side_to_move b" and "\<not> checkWin b attacker"
  shows "winningMoves z b attacker = []"
  using assms
  by (auto simp: winningMoves_def filter_empty_conv set_collectLegalMoves checkWin_playMove_other)

lemma collectCurrentForcingThreats_eq:
  "collectCurrentForcingThreats z rootBoard player out =
     (case rootBoard of
        None \<Rightarrow> []
      | Some b \<Rightarrow> map (fiveThreat player) (winningMoves z b player))"
  by (simp add: collectCurrentForcingThreats_def forcingLoop_eq filter_winsBy_collectLegalMoves
      split: option.splits)

section \<open>A player who has already won\<close>


section \<open>Putting a stone on the board\<close>



lemma hasStone_stone_added:
  assumes "legalAt b m" and "cells b1 = (cells b)((move_x m, move_y m) \<mapsto> q)"
  shows "hasStone b1 p s t \<longleftrightarrow> (s = move_x m \<and> t = move_y m \<and> p = q) \<or> hasStone b p s t"
proof (cases "(s, t) = (move_x m, move_y m)")
  case True
  then have "cells b (s, t) = None" and "inBounds s t"
    using assms(1) by (auto simp: legalAt_def isOccupied_def)
  then show ?thesis
    using True by (auto simp: hasStone_def assms(2))
next
  case False
  then show ?thesis
    by (auto simp: hasStone_def assms(2))
qed

lemma hasStone_withStone:
  assumes "legalAt b m"
  shows "hasStone (withStone z b q m) p s t \<longleftrightarrow>
           (s = move_x m \<and> t = move_y m \<and> p = q) \<or> hasStone b p s t"
  by (rule hasStone_stone_added [OF assms]) (simp add: withStone_def)
lemma legalAt_withStone:
  assumes "legalAt b m" and "(move_x m, move_y m) \<noteq> (move_x m0, move_y m0)"
  shows "legalAt (withStone z b q m0) m"
  using assms by (auto simp: legalAt_def isOccupied_def withStone_def)

lemma five_in_row:
  assumes "\<And>s. x0 \<le> s \<Longrightarrow> s \<le> x0 + 4 \<Longrightarrow> hasStone b p s y0"
  shows "checkWin b p"
proof -
  have f: "\<forall>k\<in>{0, 1, 2, 3, 4}. hasStone b p (x0 + k * 1) (y0 + k * 0)"
    using assms by auto
  have d: "(1, 0) \<in> set lineDirections"
    by (simp add: lineDirections_def)
  show ?thesis
    unfolding checkWin_iff using d f by blast
qed

section \<open>The order of the scan\<close>

text \<open>
  \<^verbatim>\<open>collectLegalMoves\<close> returns the legal moves in strictly increasing row-major order,
  so that the scan starts at (0,0) when that cell is empty.
\<close>

lemma sorted_insertSorted:
  assumes "sorted_wrt (\<lambda>a b. \<not> rowMajorLess b a) xs"
  shows "sorted_wrt (\<lambda>a b. \<not> rowMajorLess b a) (insertSorted rowMajorLess a xs)"
  using assms
proof (induction xs)
  case Nil
  then show ?case by simp
next
  case (Cons x xs)
  show ?case
  proof (cases "rowMajorLess x a")
    case True
    have "\<forall>y\<in>set (insertSorted rowMajorLess a xs). \<not> rowMajorLess y x"
      using Cons.prems True by (auto simp: set_insertSorted rowMajorLess_def split: if_splits)
    then show ?thesis
      using True Cons by simp
  next
    case False
    have "\<forall>y\<in>set xs. \<not> rowMajorLess y a"
    proof
      fix y assume "y \<in> set xs"
      then have "\<not> rowMajorLess y x" using Cons.prems by simp
      then show "\<not> rowMajorLess y a"
        using False by (auto simp: rowMajorLess_def split: if_splits)
    qed
    then show ?thesis
      using False Cons.prems by simp
  qed
qed

lemma sorted_sortWith: "sorted_wrt (\<lambda>a b. \<not> rowMajorLess b a) (sortWith rowMajorLess xs)"
  by (induction xs) (simp_all add: sortWith_def sorted_insertSorted)

lemma rowMajorLess_total: "a \<noteq> b \<Longrightarrow> \<not> rowMajorLess b a \<Longrightarrow> rowMajorLess a b"
  by (cases a; cases b) (auto simp: rowMajorLess_def split: if_splits)

lemma sorted_strict:
  assumes "distinct xs" and "sorted_wrt (\<lambda>a b. \<not> rowMajorLess b a) xs"
  shows "sorted_wrt rowMajorLess xs"
  using assms by (induction xs) (auto intro: rowMajorLess_total)

lemma sorted_collectLegalMoves: "sorted_wrt rowMajorLess (collectLegalMoves b)"
  by (rule sorted_strict [OF distinct_collectLegalMoves])
     (simp add: collectLegalMoves_def sorted_sortWith)



section \<open>A four of the player who is not to move\<close>

text \<open>
  In \<open>whiteFour\<close> and \<open>whiteOpenFour\<close> White has four in a row and Black is to
  move. The cells on which a White stone completes five in a row are (4,1) in the first
  position, (0,1) and (5,1) in the second; a Black stone on one of the two leaves the
  other. The solver sees none of them: it tries the cells with Black stones.
\<close>

lemma row_four_completion:
  assumes h: "\<And>s t. hasStone b1 p s t \<longleftrightarrow> (s = u \<and> t = v) \<or> (t = 1 \<and> 0 \<le> s \<and> s \<le> 3)"
    and u0: "0 \<le> u" and free: "\<not> (v = 1 \<and> 0 \<le> u \<and> u \<le> 3)"
    and c: "checkWin b1 p"
  shows "u = 4 \<and> v = 1"
proof -
  obtain x y dx dy where d: "(dx, dy) \<in> set lineDirections"
    and f: "\<forall>k\<in>{0, 1, 2, 3, 4}. (x + k * dx = u \<and> y + k * dy = v) \<or>
                 (y + k * dy = 1 \<and> 0 \<le> x + k * dx \<and> x + k * dx \<le> 3)"
    using c unfolding checkWin_iff h by blast
  have k0: "(x = u \<and> y = v) \<or> (y = 1 \<and> 0 \<le> x \<and> x \<le> 3)"
    using f by auto
  have k1: "(x + dx = u \<and> y + dy = v) \<or> (y + dy = 1 \<and> 0 \<le> x + dx \<and> x + dx \<le> 3)"
    using f by auto
  have k2: "(x + 2 * dx = u \<and> y + 2 * dy = v) \<or>
            (y + 2 * dy = 1 \<and> 0 \<le> x + 2 * dx \<and> x + 2 * dx \<le> 3)"
    using f by auto
  have k3: "(x + 3 * dx = u \<and> y + 3 * dy = v) \<or>
            (y + 3 * dy = 1 \<and> 0 \<le> x + 3 * dx \<and> x + 3 * dx \<le> 3)"
    using f by auto
  have k4: "(x + 4 * dx = u \<and> y + 4 * dy = v) \<or>
            (y + 4 * dy = 1 \<and> 0 \<le> x + 4 * dx \<and> x + 4 * dx \<le> 3)"
    using f by auto
  have dd: "(dx = 1 \<and> dy = 0) \<or> (dx = 0 \<and> dy = 1) \<or> (dx = 1 \<and> dy = 1) \<or> (dx = 1 \<and> dy = - 1)"
    using d by (rule lineDirections_cases)
  have dy0: "dy = 0"
  proof (rule ccontr)
    assume "dy \<noteq> 0"
    then have "dy = 1 \<or> dy = - 1" using dd by arith
    then show False using k0 k1 k2 by arith
  qed
  have dx: "dx = 1"
    using dd dy0 by arith
  have x0: "0 \<le> x"
    using k0 u0 by arith
  have e4: "x + 4 = u \<and> y = v"
    using k4 x0 dx dy0 by simp
  have "x \<le> 0"
    using k3 e4 dx dy0 by simp
  then have "x = 0" using x0 by simp
  moreover have "y = 1"
    using k1 e4 dx dy0 by auto
  ultimately show ?thesis
    using e4 by simp
qed

lemma cells_whiteFour:
  "cells (whiteFour z) =
     [(0, 11) \<mapsto> Black, (0, 1) \<mapsto> White, (2, 11) \<mapsto> Black, (1, 1) \<mapsto> White,
      (4, 11) \<mapsto> Black, (2, 1) \<mapsto> White, (6, 11) \<mapsto> Black, (3, 1) \<mapsto> White]"
  by (simp add: whiteFour_def playMoves_def playMove_def makeMove_def emptyBoard_def
      inBounds_def kBoardSize_def isOccupied_def otherPlayer_def)

lemma side_whiteFour: "side_to_move (whiteFour z) = Black"
  by (simp add: whiteFour_def playMoves_def playMove_def makeMove_def emptyBoard_def
      inBounds_def kBoardSize_def isOccupied_def otherPlayer_def)

lemma hasStone_whiteFour:
  "hasStone (whiteFour z) White s t \<longleftrightarrow> t = 1 \<and> 0 \<le> s \<and> s \<le> 3"
  by (auto simp: hasStone_def cells_whiteFour inBounds_def kBoardSize_def)

lemma not_checkWin_whiteFour: "\<not> checkWin (whiteFour z) White"
proof
  assume "checkWin (whiteFour z) White"
  then obtain x y dx dy where d: "(dx, dy) \<in> set lineDirections"
    and f: "\<forall>k\<in>{0, 1, 2, 3, 4}. y + k * dy = 1 \<and> 0 \<le> x + k * dx \<and> x + k * dx \<le> 3"
    unfolding checkWin_iff hasStone_whiteFour by blast
  have k0: "y = 1 \<and> 0 \<le> x \<and> x \<le> 3"
    using f by auto
  have k4: "y + 4 * dy = 1 \<and> 0 \<le> x + 4 * dx \<and> x + 4 * dx \<le> 3"
    using f by auto
  show False
    using k0 k4 lineDirections_cases [OF d] by arith
qed

lemma legalAt_whiteFour:
  "legalAt (whiteFour z) (Move s t) \<longleftrightarrow>
     inBounds s t \<and> (s, t) \<notin> {(0, 1), (1, 1), (2, 1), (3, 1), (0, 11), (2, 11), (4, 11), (6, 11)}"
  by (auto simp: legalAt_def isOccupied_def cells_whiteFour)

lemma whiteFour_completion:
  "legalAt (whiteFour z) m \<and> checkWin (withStone z (whiteFour z) White m) White \<longleftrightarrow> m = Move 4 1"
proof
  assume a: "legalAt (whiteFour z) m \<and> checkWin (withStone z (whiteFour z) White m) White"
  obtain u v where m: "m = Move u v" by (cases m)
  have l: "legalAt (whiteFour z) (Move u v)" using a m by simp
  have "u = 4 \<and> v = 1"
  proof (rule row_four_completion)
    show "hasStone (withStone z (whiteFour z) White (Move u v)) White s t \<longleftrightarrow>
            (s = u \<and> t = v) \<or> (t = 1 \<and> 0 \<le> s \<and> s \<le> 3)" for s t
      by (simp add: hasStone_withStone [OF l] hasStone_whiteFour)
    show "0 \<le> u" and "\<not> (v = 1 \<and> 0 \<le> u \<and> u \<le> 3)"
      using l by (auto simp: legalAt_whiteFour inBounds_def)
    show "checkWin (withStone z (whiteFour z) White (Move u v)) White"
      using a m by simp
  qed
  then show "m = Move 4 1" using m by simp
next
  assume m: "m = Move 4 1"
  have l: "legalAt (whiteFour z) (Move 4 1)"
    by (simp add: legalAt_whiteFour inBounds_def kBoardSize_def)
  have "\<forall>k\<in>{0, 1, 2, 3, 4}.
          hasStone (withStone z (whiteFour z) White (Move 4 1)) White (0 + k * 1) (1 + k * 0)"
    by (simp add: hasStone_withStone [OF l] hasStone_whiteFour)
  then have "checkWin (withStone z (whiteFour z) White (Move 4 1)) White"
    unfolding checkWin_iff lineDirections_def
    by (intro exI [of _ 0] exI [of _ 1] conjI) (auto simp del: One_nat_def)
  then show "legalAt (whiteFour z) m \<and> checkWin (withStone z (whiteFour z) White m) White"
    using l m by simp
qed

lemma cells_whiteOpenFour:
  "cells (whiteOpenFour z) =
     [(0, 11) \<mapsto> Black, (1, 1) \<mapsto> White, (2, 11) \<mapsto> Black, (2, 1) \<mapsto> White,
      (4, 11) \<mapsto> Black, (3, 1) \<mapsto> White, (6, 11) \<mapsto> Black, (4, 1) \<mapsto> White]"
  by (simp add: whiteOpenFour_def playMoves_def playMove_def makeMove_def emptyBoard_def
      inBounds_def kBoardSize_def isOccupied_def otherPlayer_def)

lemma side_whiteOpenFour: "side_to_move (whiteOpenFour z) = Black"
  by (simp add: whiteOpenFour_def playMoves_def playMove_def makeMove_def emptyBoard_def
      inBounds_def kBoardSize_def isOccupied_def otherPlayer_def)

lemma hasStone_whiteOpenFour:
  "hasStone (whiteOpenFour z) White s t \<longleftrightarrow> t = 1 \<and> 1 \<le> s \<and> s \<le> 4"
  by (auto simp: hasStone_def cells_whiteOpenFour inBounds_def kBoardSize_def)

lemma not_checkWin_whiteOpenFour: "\<not> checkWin (whiteOpenFour z) White"
proof
  assume "checkWin (whiteOpenFour z) White"
  then obtain x y dx dy where d: "(dx, dy) \<in> set lineDirections"
    and f: "\<forall>k\<in>{0, 1, 2, 3, 4}. y + k * dy = 1 \<and> 1 \<le> x + k * dx \<and> x + k * dx \<le> 4"
    unfolding checkWin_iff hasStone_whiteOpenFour by blast
  have k0: "y = 1 \<and> 1 \<le> x \<and> x \<le> 4"
    using f by auto
  have k4: "y + 4 * dy = 1 \<and> 1 \<le> x + 4 * dx \<and> x + 4 * dx \<le> 4"
    using f by auto
  show False
    using k0 k4 lineDirections_cases [OF d] by arith
qed

lemma legalAt_whiteOpenFour:
  "legalAt (whiteOpenFour z) (Move 0 1) \<and> legalAt (whiteOpenFour z) (Move 5 1)"
  by (simp add: legalAt_def isOccupied_def cells_whiteOpenFour inBounds_def kBoardSize_def)

lemma whiteOpenFour_left: "checkWin (withStone z (whiteOpenFour z) White (Move 0 1)) White"
  by (rule five_in_row [where ?x0.0 = 0 and ?y0.0 = 1])
     (auto simp: hasStone_withStone [OF conjunct1 [OF legalAt_whiteOpenFour]] hasStone_whiteOpenFour)

lemma whiteOpenFour_right: "checkWin (withStone z (whiteOpenFour z) White (Move 5 1)) White"
  by (rule five_in_row [where ?x0.0 = 1 and ?y0.0 = 1])
     (auto simp: hasStone_withStone [OF conjunct2 [OF legalAt_whiteOpenFour]] hasStone_whiteOpenFour)

lemma whiteOpenFour_left_blocked:
  "checkWin (withStone z (withStone z (whiteOpenFour z) Black (Move 0 1)) White (Move 5 1)) White"
proof -
  have l0: "legalAt (whiteOpenFour z) (Move 0 1)" and l5: "legalAt (whiteOpenFour z) (Move 5 1)"
    using legalAt_whiteOpenFour by simp_all
  have l: "legalAt (withStone z (whiteOpenFour z) Black (Move 0 1)) (Move 5 1)"
    by (rule legalAt_withStone [OF l5]) simp
  show ?thesis
    by (rule five_in_row [where ?x0.0 = 1 and ?y0.0 = 1])
       (auto simp: hasStone_withStone [OF l] hasStone_withStone [OF l0] hasStone_whiteOpenFour)
qed

lemma whiteOpenFour_right_blocked:
  "checkWin (withStone z (withStone z (whiteOpenFour z) Black (Move 5 1)) White (Move 0 1)) White"
proof -
  have l0: "legalAt (whiteOpenFour z) (Move 0 1)" and l5: "legalAt (whiteOpenFour z) (Move 5 1)"
    using legalAt_whiteOpenFour by simp_all
  have l: "legalAt (withStone z (whiteOpenFour z) Black (Move 5 1)) (Move 0 1)"
    by (rule legalAt_withStone [OF l0]) simp
  show ?thesis
    by (rule five_in_row [where ?x0.0 = 0 and ?y0.0 = 1])
       (auto simp: hasStone_withStone [OF l] hasStone_withStone [OF l5] hasStone_whiteOpenFour)
qed

lemma computeDefensiveSet_not_to_move:
  assumes "otherPlayer defender \<noteq> side_to_move b" and "\<not> checkWin b (otherPlayer defender)"
  shows "computeDefensiveSet z (Some b) defender defaultLimits =
           \<lparr>isLost = False, defensiveMoves = []\<rparr>"
  by (simp add: computeDefensiveSet_full [OF neverCut_collectLegalMoves_default]
      winningMoves_not_to_move [OF assms])

section \<open>A board with one empty cell\<close>







section \<open>A scan that is cut short\<close>









section \<open>The claims\<close>

text \<open>
  Claim C1 says that \<^verbatim>\<open>hasImmediateWinningThreat(attacker)\<close> returns true whenever the
  attacker already has five in a row or some legal move creates five in a row for the
  attacker. The code diverges for an attacker who is not to move. In \<open>whiteOpenFour\<close>
  the cell (0,1) is empty and a White stone on it completes five in a row, and in
  \<open>whiteFour\<close> the same holds of (4,1); in both positions
  \<^verbatim>\<open>hasImmediateWinningThreat(White)\<close> returns false. \<^verbatim>\<open>isImmediateWinningMove\<close>
  tries each cell with \<^verbatim>\<open>makeMove\<close>, which places a stone of the side to move, here
  Black, and then tests \<^verbatim>\<open>checkWin(attacker)\<close>.
\<close>

theorem hasImmediateWinningThreat_misses_four:
  "legalAt (whiteFour z) (Move 4 1) \<and>
   checkWin (withStone z (whiteFour z) White (Move 4 1)) White \<and>
   \<not> hasImmediateWinningThreat z (Some (whiteFour z)) White \<and>
   legalAt (whiteOpenFour z) (Move 0 1) \<and>
   checkWin (withStone z (whiteOpenFour z) White (Move 0 1)) White \<and>
   \<not> hasImmediateWinningThreat z (Some (whiteOpenFour z)) White"
proof -
  have "legalAt (whiteFour z) (Move 4 1) \<and>
        checkWin (withStone z (whiteFour z) White (Move 4 1)) White"
    using whiteFour_completion [of z "Move 4 1"] by simp
  moreover have "\<not> hasImmediateWinningThreat z (Some (whiteFour z)) White"
    by (simp add: hasImmediateWinningThreat_not_to_move side_whiteFour not_checkWin_whiteFour)
  moreover have "\<not> hasImmediateWinningThreat z (Some (whiteOpenFour z)) White"
    by (simp add: hasImmediateWinningThreat_not_to_move side_whiteOpenFour
        not_checkWin_whiteOpenFour)
  ultimately show ?thesis
    using legalAt_whiteOpenFour [of z] whiteOpenFour_left [of z] by blast
qed

text \<open>
  Claim C2 says that \<^verbatim>\<open>computeDefensiveSet(defender)\<close> lists the one move that refutes
  the opponent's win when there is exactly one, and returns \<open>isLost = true\<close> when the
  opponent has more than one winning line with no common refutation. The code diverges
  when the defender is to move. In \<open>whiteFour\<close>, with Black to move, a White stone
  completes five in a row on (4,1) and on no other cell, so that (4,1) is the one
  refutation; in \<open>whiteOpenFour\<close> it does so on (0,1) and on (5,1), and a Black stone on
  either leaves the other. In both positions \<^verbatim>\<open>computeDefensiveSet(Black)\<close> returns
  \<open>isLost = false\<close> with an empty list, the answer for a position without a win of the
  opponent.
\<close>

theorem computeDefensiveSet_misses_four:
  "computeDefensiveSet z (Some (whiteFour z)) Black defaultLimits =
     \<lparr>isLost = False, defensiveMoves = []\<rparr> \<and>
   (\<forall>m. (legalAt (whiteFour z) m \<and> checkWin (withStone z (whiteFour z) White m) White) =
        (m = Move 4 1)) \<and>
   computeDefensiveSet z (Some (whiteOpenFour z)) Black defaultLimits =
     \<lparr>isLost = False, defensiveMoves = []\<rparr> \<and>
   legalAt (whiteOpenFour z) (Move 0 1) \<and> legalAt (whiteOpenFour z) (Move 5 1) \<and>
   checkWin (withStone z (whiteOpenFour z) White (Move 0 1)) White \<and>
   checkWin (withStone z (whiteOpenFour z) White (Move 5 1)) White \<and>
   checkWin (withStone z (withStone z (whiteOpenFour z) Black (Move 0 1)) White (Move 5 1)) White \<and>
   checkWin (withStone z (withStone z (whiteOpenFour z) Black (Move 5 1)) White (Move 0 1)) White"
proof -
  have ob: "otherPlayer Black = White"
    by (simp add: otherPlayer_def)
  have 1: "computeDefensiveSet z (Some (whiteFour z)) Black defaultLimits =
     \<lparr>isLost = False, defensiveMoves = []\<rparr>"
    by (rule computeDefensiveSet_not_to_move)
       (simp_all add: ob side_whiteFour not_checkWin_whiteFour)
  have 2: "computeDefensiveSet z (Some (whiteOpenFour z)) Black defaultLimits =
     \<lparr>isLost = False, defensiveMoves = []\<rparr>"
    by (rule computeDefensiveSet_not_to_move)
       (simp_all add: ob side_whiteOpenFour not_checkWin_whiteOpenFour)
  show ?thesis
    using 1 2 whiteFour_completion [of z] legalAt_whiteOpenFour [of z] whiteOpenFour_left [of z]
      whiteOpenFour_right [of z] whiteOpenFour_left_blocked [of z]
      whiteOpenFour_right_blocked [of z]
    by blast
qed




text \<open>
  Claim C4, as the code has it. With the abort flag set for the whole call,
  \<^verbatim>\<open>findWinningThreatSequence\<close> still returns true when the attacker already has five
  in a row: line 59 returns before the flag is read.
\<close>

theorem findWinningThreatSequence_abort_counterexample:
  "abortRequested (defaultLimits\<lparr>abortFlag := Some flagSet\<rparr>) 0 \<and>
   fst (findWinningThreatSequence sampleZobrist (Some (fiveBoard sampleZobrist)) Black
          defaultThreatSequence (defaultLimits\<lparr>abortFlag := Some flagSet\<rparr>))"
  by (simp add: abortRequested_def flagSet_def findWinningThreatSequence_def checkWin_fiveBoard)


text \<open>
  Claim C4, amended. When the attacker does not already have five in a row on the
  board, \<^verbatim>\<open>findWinningThreatSequence\<close> returns false and leaves \<^verbatim>\<open>outSequence\<close> as it
  was if the scan is cut at a branch point \<open>k\<close> before a winning move is found: the abort
  flag reads true there, or the count of branch points, \<open>k + 1\<close>, exceeds
  \<^verbatim>\<open>limits.maxNodes\<close>. When the attacker already has five in a row, the call returns
  true with \<^verbatim>\<open>outSequence = ThreatSequence{attacker}\<close>, whatever the limits and the
  flag. The false return does not prove the position safe: there is a position where
  the call returns false under some limits and true under the default ones.
\<close>

theorem findWinningThreatSequence_cut:
  "(\<not> checkWin b attacker \<and> cutAt limits k \<and>
    (\<forall>m\<in>set (take k (collectLegalMoves b)). \<not> checkWin (playMove z b m) attacker) \<longrightarrow>
      findWinningThreatSequence z (Some b) attacker outSequence limits = (False, outSequence)) \<and>
   (checkWin b attacker \<longrightarrow>
      findWinningThreatSequence z (Some b) attacker outSequence limits =
        (True, defaultThreatSequence\<lparr>seqAttacker := attacker\<rparr>)) \<and>
   (\<exists>b0 limits0.
      \<not> fst (findWinningThreatSequence z (Some b0) Black outSequence limits0) \<and>
      fst (findWinningThreatSequence z (Some b0) Black outSequence defaultLimits))"
proof (intro conjI)
  show "\<not> checkWin b attacker \<and> cutAt limits k \<and>
    (\<forall>m\<in>set (take k (collectLegalMoves b)). \<not> checkWin (playMove z b m) attacker) \<longrightarrow>
      findWinningThreatSequence z (Some b) attacker outSequence limits = (False, outSequence)"
  proof
    assume a: "\<not> checkWin b attacker \<and> cutAt limits k \<and>
      (\<forall>m\<in>set (take k (collectLegalMoves b)). \<not> checkWin (playMove z b m) attacker)"
    then have "\<forall>m\<in>set (take k (collectLegalMoves b)). \<not> winsBy z b attacker m"
      by (simp add: winsBy_def)
    moreover have "cutAt limits (0 + k)" using a by simp
    ultimately have "findLoop z attacker limits b (int 0) (collectLegalMoves b) = None"
      by (rule findLoop_cut)
    then show "findWinningThreatSequence z (Some b) attacker outSequence limits = (False, outSequence)"
      using a by (simp add: findWinningThreatSequence_def)
  qed
next
  show "checkWin b attacker \<longrightarrow>
      findWinningThreatSequence z (Some b) attacker outSequence limits =
        (True, defaultThreatSequence\<lparr>seqAttacker := attacker\<rparr>)"
    by (simp add: findWinningThreatSequence_def)
next
  let ?l = "defaultLimits\<lparr>maxNodes := 0\<rparr>"
  have "cutAt ?l 0" by (simp add: cutAt_def)
  then have "findLoop z Black ?l (fourBoard z) (int 0) (collectLegalMoves (fourBoard z)) = None"
    by (intro findLoop_cut [where k = 0]) simp_all
  then have 1: "\<not> fst (findWinningThreatSequence z (Some (fourBoard z)) Black outSequence ?l)"
    by (simp add: findWinningThreatSequence_def not_checkWin_fourBoard)
  have 2: "fst (findWinningThreatSequence z (Some (fourBoard z)) Black outSequence defaultLimits)"
    by (simp add: findWinningThreatSequence_full [OF neverCut_collectLegalMoves_default]
        not_checkWin_fourBoard winningMoves_fourBoard)
  show "\<exists>b0 limits0.
      \<not> fst (findWinningThreatSequence z (Some b0) Black outSequence limits0) \<and>
      fst (findWinningThreatSequence z (Some b0) Black outSequence defaultLimits)"
    using 1 2 by blast
qed

theorem findWinningThreatSequence_cut_witness:
  "\<not> checkWin (fourBoard sampleZobrist) Black \<and>
   cutAt (defaultLimits\<lparr>abortFlag := Some flagSet\<rparr>) 0 \<and>
   findWinningThreatSequence sampleZobrist (Some (fourBoard sampleZobrist)) Black
     defaultThreatSequence (defaultLimits\<lparr>abortFlag := Some flagSet\<rparr>) =
       (False, defaultThreatSequence) \<and>
   fst (findWinningThreatSequence sampleZobrist (Some (fourBoard sampleZobrist)) Black
     defaultThreatSequence defaultLimits) \<and>
   checkWin (fiveBoard sampleZobrist) Black \<and>
   findWinningThreatSequence sampleZobrist (Some (fiveBoard sampleZobrist)) Black
     defaultThreatSequence (defaultLimits\<lparr>abortFlag := Some flagSet\<rparr>) =
       (True, defaultThreatSequence\<lparr>seqAttacker := Black\<rparr>)"
proof -
  let ?l = "defaultLimits\<lparr>abortFlag := Some flagSet\<rparr>"
  have c: "cutAt ?l 0"
    by (simp add: cutAt_def abortRequested_def flagSet_def)
  have n: "\<not> checkWin (fourBoard sampleZobrist) Black"
    by (rule not_checkWin_fourBoard)
  have w: "checkWin (fiveBoard sampleZobrist) Black"
    by (rule checkWin_fiveBoard)
  have 1: "findWinningThreatSequence sampleZobrist (Some (fourBoard sampleZobrist)) Black
     defaultThreatSequence ?l = (False, defaultThreatSequence)"
    using c n
      findWinningThreatSequence_cut [of "fourBoard sampleZobrist" Black ?l 0 sampleZobrist
        defaultThreatSequence]
    by simp
  have 2: "fst (findWinningThreatSequence sampleZobrist (Some (fourBoard sampleZobrist)) Black
     defaultThreatSequence defaultLimits)"
    by (simp add: findWinningThreatSequence_full [OF neverCut_collectLegalMoves_default]
        not_checkWin_fourBoard winningMoves_fourBoard)
  have 3: "findWinningThreatSequence sampleZobrist (Some (fiveBoard sampleZobrist)) Black
     defaultThreatSequence ?l = (True, defaultThreatSequence\<lparr>seqAttacker := Black\<rparr>)"
    using w
      findWinningThreatSequence_cut [of "fiveBoard sampleZobrist" Black ?l 0 sampleZobrist
        defaultThreatSequence]
    by blast
  show ?thesis
    using c n w 1 2 3 by blast
qed

text \<open>
  Claim C5 says that every \<^verbatim>\<open>ThreatInstance\<close> appended by
  \<^verbatim>\<open>collectCurrentForcingThreats\<close> has type SimpleFour, OpenThree or BrokenThree. The
  code diverges. In the position \<open>fourBoard\<close> Black has four in a row with one cell to
  complete it, and \<^verbatim>\<open>collectCurrentForcingThreats(Black)\<close> appends one instance, whose
  type is Five.
\<close>

theorem collectCurrentForcingThreats_appends_five:
  "collectCurrentForcingThreats sampleZobrist (Some (fourBoard sampleZobrist)) Black [] =
     [fiveThreat Black (Move 4 1)] \<and>
   threatType (fiveThreat Black (Move 4 1)) = Five \<and>
   threatType (fiveThreat Black (Move 4 1)) \<noteq> SimpleFour \<and>
   threatType (fiveThreat Black (Move 4 1)) \<noteq> OpenThree \<and>
   threatType (fiveThreat Black (Move 4 1)) \<noteq> BrokenThree"
  by (simp add: collectCurrentForcingThreats_eq winningMoves_fourBoard fiveThreat_def
      defaultThreatInstance_def)


text \<open>
  Claim C6, as the code has it. The order \<^verbatim>\<open>operator<\<close> of \<^verbatim>\<open>Move\<close> is not row-major:
  (0,1) is below (1,0), although its \<open>y\<close> is the larger one.
\<close>

theorem Move_less_row_major_counterexample:
  "Move_less (Move 0 1) (Move 1 0) \<and>
   \<not> (move_y (Move 0 1) < move_y (Move 1 0) \<or>
      (move_y (Move 0 1) = move_y (Move 1 0) \<and> move_x (Move 0 1) < move_x (Move 1 0)))"
  by (simp add: Move_less_def)


text \<open>
  Claim C6, amended. The order \<^verbatim>\<open>operator<\<close> of \<^verbatim>\<open>Move\<close> is a strict total order in
  column-major form: \<open>a < b\<close> holds exactly when \<open>a.x < b.x\<close>, or \<open>a.x = b.x\<close> and
  \<open>a.y < b.y\<close>. It is irreflexive, transitive, asymmetric, and any two distinct moves are
  comparable. The row-major order, by \<open>y\<close> and then \<open>x\<close>, is the comparator that
  \<^verbatim>\<open>collectLegalMoves\<close> sorts with: the list it returns holds the moves of
  \<^verbatim>\<open>getLegalMoves\<close>, each once, in strictly increasing row-major order.
\<close>

theorem Move_less_column_major:
  "(Move_less a b \<longleftrightarrow>
      move_x a < move_x b \<or> (move_x a = move_x b \<and> move_y a < move_y b)) \<and>
   \<not> Move_less a a \<and>
   (Move_less a b \<longrightarrow> Move_less b c \<longrightarrow> Move_less a c) \<and>
   (a \<noteq> b \<longrightarrow> Move_less a b \<or> Move_less b a) \<and>
   (Move_less a b \<longrightarrow> \<not> Move_less b a) \<and>
   (rowMajorLess a b \<longleftrightarrow>
      move_y a < move_y b \<or> (move_y a = move_y b \<and> move_x a < move_x b)) \<and>
   sorted_wrt rowMajorLess (collectLegalMoves board) \<and>
   distinct (collectLegalMoves board) \<and>
   set (collectLegalMoves board) = set (getLegalMoves board)"
  using Move_less_trans [of a b c] Move_less_total [of a b]
    sorted_collectLegalMoves [of board] distinct_collectLegalMoves [of board]
  by (auto simp: Move_less_def rowMajorLess_def collectLegalMoves_def set_sortWith)

theorem Move_less_column_major_witness:
  "Move_less (Move 0 1) (Move 1 0) \<and> Move_less (Move 1 0) (Move 1 5) \<and>
   Move_less (Move 0 1) (Move 1 5) \<and> \<not> Move_less (Move 1 0) (Move 0 1) \<and>
   rowMajorLess (Move 1 0) (Move 0 1) \<and> \<not> rowMajorLess (Move 0 1) (Move 1 0) \<and>
   sorted_wrt rowMajorLess (collectLegalMoves (fourBoard sampleZobrist))"
  using Move_less_column_major [of "Move 0 1" "Move 1 0" "Move 1 5" "fourBoard sampleZobrist"]
    Move_less_column_major [of "Move 1 0" "Move 0 1" "Move 1 5" "fourBoard sampleZobrist"]
    Move_less_column_major [of "Move 1 0" "Move 1 5" "Move 1 5" "fourBoard sampleZobrist"]
  by simp

text \<open>
  Claim C7. \<^verbatim>\<open>makeMove(x, y)\<close> returns false and leaves the whole board as it was when
  \<open>(x, y)\<close> is out of range or the cell is occupied. Otherwise it returns true, the cell
  holds a stone of the side that was to move, every other cell is as before, the side
  to move has flipped, and the hash is the old one XORed with the constant of the placed
  stone and the side constant.
\<close>

theorem makeMove_contract:
  "(\<not> inBounds x y \<or> isOccupied b x y \<longrightarrow> makeMove z b x y = (False, b)) \<and>
   (inBounds x y \<and> \<not> isOccupied b x y \<longrightarrow>
      fst (makeMove z b x y) \<and>
      cells (snd (makeMove z b x y)) (x, y) = Some (side_to_move b) \<and>
      (\<forall>c. c \<noteq> (x, y) \<longrightarrow> cells (snd (makeMove z b x y)) c = cells b c) \<and>
      side_to_move (snd (makeMove z b x y)) = otherPlayer (side_to_move b) \<and>
      side_to_move (snd (makeMove z b x y)) \<noteq> side_to_move b \<and>
      hashKey (snd (makeMove z b x y)) =
        hashKey b XOR zobristTable z x y (side_to_move b) XOR zobristSide z)"
  by (auto simp: makeMove_def otherPlayer_def)

theorem makeMove_contract_witness:
  "inBounds 4 1 \<and> \<not> isOccupied (fourBoard sampleZobrist) 4 1 \<and>
   fst (makeMove sampleZobrist (fourBoard sampleZobrist) 4 1) \<and>
   cells (snd (makeMove sampleZobrist (fourBoard sampleZobrist) 4 1)) (4, 1) = Some Black \<and>
   side_to_move (snd (makeMove sampleZobrist (fourBoard sampleZobrist) 4 1)) = White \<and>
   isOccupied (fourBoard sampleZobrist) 3 1 \<and>
   makeMove sampleZobrist (fourBoard sampleZobrist) 3 1 = (False, fourBoard sampleZobrist) \<and>
   \<not> inBounds 12 0 \<and>
   makeMove sampleZobrist (fourBoard sampleZobrist) 12 0 = (False, fourBoard sampleZobrist)"
proof -
  let ?b = "fourBoard sampleZobrist"
  have l: "inBounds 4 1" "\<not> isOccupied ?b 4 1"
    using winsBy_fourBoard [of sampleZobrist "Move 4 1"] by (simp_all add: winsBy_def legalAt_def)
  have o: "isOccupied ?b 3 1"
    by (simp add: isOccupied_def cells_fourBoard)
  have n: "\<not> inBounds 12 0"
    by (simp add: inBounds_def kBoardSize_def)
  show ?thesis
    using l o n makeMove_contract [of 4 1 ?b sampleZobrist]
      makeMove_contract [of 3 1 ?b sampleZobrist] makeMove_contract [of 12 0 ?b sampleZobrist]
    by (simp add: side_fourBoard otherPlayer_def)
qed


text \<open>
  Claim C8. For every valid mate score \<open>s\<close> and ply distance \<open>d\<close>,
  \<open>fromTTScore (toTTScore s d) d = s\<close>. \<^verbatim>\<open>toTTScore\<close> subtracts the ply distance from
  a winning mate score, adds it to a losing one, and passes ordinary scores through, as
  \<^verbatim>\<open>fromTTScore\<close> does; and \<^verbatim>\<open>toTTScore\<close> undoes \<^verbatim>\<open>fromTTScore\<close> on every score.
\<close>

theorem ttScore_roundtrip:
  "(0 < mateBound \<and> validMateScore mateBound s d \<longrightarrow>
      fromTTScore mateBound (toTTScore mateBound s d) d = s) \<and>
   (mateBound \<le> s \<longrightarrow> toTTScore mateBound s d = s - d) \<and>
   (0 < mateBound \<and> s \<le> - mateBound \<longrightarrow> toTTScore mateBound s d = s + d) \<and>
   (- mateBound < s \<and> s < mateBound \<longrightarrow>
      toTTScore mateBound s d = s \<and> fromTTScore mateBound s d = s) \<and>
   (0 < mateBound \<and> 0 \<le> d \<longrightarrow> toTTScore mateBound (fromTTScore mateBound s d) d = s)"
  by (auto simp: validMateScore_def toTTScore_def fromTTScore_def)

theorem ttScore_roundtrip_witness:
  "0 < kMateScore - 1000 \<and>
   validMateScore (kMateScore - 1000) kMateScore 7 \<and>
   fromTTScore (kMateScore - 1000) (toTTScore (kMateScore - 1000) kMateScore 7) 7 = kMateScore \<and>
   validMateScore (kMateScore - 1000) (- kMateScore) 7 \<and>
   fromTTScore (kMateScore - 1000) (toTTScore (kMateScore - 1000) (- kMateScore) 7) 7 =
     - kMateScore"
proof -
  have p: "0 < kMateScore - 1000"
    by (simp add: kMateScore_def kInfinity_def)
  have v: "validMateScore (kMateScore - 1000) kMateScore 7"
    by (simp add: validMateScore_def)
  have w: "validMateScore (kMateScore - 1000) (- kMateScore) 7"
    by (simp add: validMateScore_def)
  have "fromTTScore (kMateScore - 1000) (toTTScore (kMateScore - 1000) kMateScore 7) 7 = kMateScore"
    using p v ttScore_roundtrip [of "kMateScore - 1000" kMateScore 7] by blast
  moreover have "fromTTScore (kMateScore - 1000) (toTTScore (kMateScore - 1000) (- kMateScore) 7) 7 =
     - kMateScore"
    using p w ttScore_roundtrip [of "kMateScore - 1000" "- kMateScore" 7] by blast
  ultimately show ?thesis
    using p v w by blast
qed


text \<open>
  Claim C9. Whenever \<^verbatim>\<open>findWinningThreatSequence\<close> returns true, the list
  \<^verbatim>\<open>attackerMoves\<close> of the sequence it returns has at most one move: it is empty exactly
  when the attacker already has five in a row on the board, and otherwise it is a single
  legal move that completes five in a row when played; the list \<^verbatim>\<open>defenderMoves\<close> is
  empty.
\<close>

theorem findWinningThreatSequence_single_ply:
  assumes "findWinningThreatSequence z rootBoard attacker outSequence limits = (True, seq)"
  shows "\<exists>b. rootBoard = Some b \<and>
           defenderMoves seq = [] \<and>
           length (attackerMoves seq) \<le> 1 \<and>
           (attackerMoves seq = [] \<longleftrightarrow> checkWin b attacker) \<and>
           (\<not> checkWin b attacker \<longrightarrow>
              (\<exists>m\<in>set (getLegalMoves b).
                 attackerMoves seq = [m] \<and> checkWin (playMove z b m) attacker))"
proof (cases rootBoard)
  case None
  then show ?thesis using assms by (simp add: findWinningThreatSequence_def)
next
  case (Some b)
  show ?thesis
  proof (cases "checkWin b attacker")
    case True
    then have "seq = defaultThreatSequence\<lparr>seqAttacker := attacker\<rparr>"
      using assms Some by (simp add: findWinningThreatSequence_def)
    then show ?thesis
      using True Some by (simp add: defaultThreatSequence_def)
  next
    case False
    then have "findLoop z attacker limits b 0 (collectLegalMoves b) = Some seq"
      using assms Some
      by (auto simp: findWinningThreatSequence_def split: option.splits)
    then obtain m where m: "m \<in> set (collectLegalMoves b)" "winsBy z b attacker m"
      and s: "seq = winningSequence attacker m"
      using findLoop_Some by blast
    have "m \<in> set (getLegalMoves b)"
      using m by (simp add: set_collectLegalMoves set_getLegalMoves)
    moreover have "attackerMoves seq = [m]" "defenderMoves seq = []"
      using s by (simp_all add: winningSequence_def defaultThreatSequence_def)
    ultimately show ?thesis
      using False Some m(2) by (auto simp: winsBy_def)
  qed
qed

theorem findWinningThreatSequence_single_ply_witness:
  "findWinningThreatSequence sampleZobrist (Some (fourBoard sampleZobrist)) Black
       defaultThreatSequence defaultLimits = (True, winningSequence Black (Move 4 1)) \<and>
   attackerMoves (winningSequence Black (Move 4 1)) = [Move 4 1] \<and>
   defenderMoves (winningSequence Black (Move 4 1)) = [] \<and>
   \<not> checkWin (fourBoard sampleZobrist) Black \<and>
   checkWin (playMove sampleZobrist (fourBoard sampleZobrist) (Move 4 1)) Black \<and>
   findWinningThreatSequence sampleZobrist (Some (fiveBoard sampleZobrist)) Black
       defaultThreatSequence defaultLimits =
     (True, defaultThreatSequence\<lparr>seqAttacker := Black\<rparr>) \<and>
   attackerMoves (defaultThreatSequence\<lparr>seqAttacker := Black\<rparr>) = [] \<and>
   checkWin (fiveBoard sampleZobrist) Black"
proof -
  let ?z = sampleZobrist
  have r: "findWinningThreatSequence ?z (Some (fourBoard ?z)) Black defaultThreatSequence
             defaultLimits = (True, winningSequence Black (Move 4 1))"
    by (simp add: findWinningThreatSequence_full [OF neverCut_collectLegalMoves_default]
        not_checkWin_fourBoard winningMoves_fourBoard)
  from findWinningThreatSequence_single_ply [OF r]
  have "\<exists>m\<in>set (getLegalMoves (fourBoard ?z)).
          attackerMoves (winningSequence Black (Move 4 1)) = [m] \<and>
          checkWin (playMove ?z (fourBoard ?z) m) Black"
    using not_checkWin_fourBoard by simp
  then have c: "checkWin (playMove ?z (fourBoard ?z) (Move 4 1)) Black"
    by (auto simp: winningSequence_def defaultThreatSequence_def)
  have r5: "findWinningThreatSequence ?z (Some (fiveBoard ?z)) Black defaultThreatSequence
             defaultLimits = (True, defaultThreatSequence\<lparr>seqAttacker := Black\<rparr>)"
    by (simp add: findWinningThreatSequence_def checkWin_fiveBoard)
  from findWinningThreatSequence_single_ply [OF r5]
  have e: "attackerMoves (defaultThreatSequence\<lparr>seqAttacker := Black\<rparr>) = []"
    using checkWin_fiveBoard [of ?z] by simp
  show ?thesis
    using r r5 c e not_checkWin_fourBoard [of ?z] checkWin_fiveBoard [of ?z]
    by (simp add: winningSequence_def defaultThreatSequence_def)
qed


text \<open>
  Claim C10. For every attacker, move and direction, \<^verbatim>\<open>getThreatAt\<close> returns
  \<^verbatim>\<open>ThreatType::None\<close>, and \<^verbatim>\<open>getThreatsAt\<close> leaves exactly four entries in its output
  vector, all \<^verbatim>\<open>ThreatType::None\<close>, whatever the vector held before.
\<close>

theorem getThreatAt_always_none:
  "getThreatAt attacker move direction = ThreatNone \<and>
   getThreatsAt attacker move out = [ThreatNone, ThreatNone, ThreatNone, ThreatNone] \<and>
   length (getThreatsAt attacker move out) = 4"
  by (simp add: getThreatAt_def getThreatsAt_def)

end
